theory Spec2Isabelle
  imports Main
begin

section \<open>Data model of the world server\<close>

text \<open>
  The embedding follows \<^verbatim>\<open>src/server/src/worldserver.js\<close> (class \<^verbatim>\<open>World\<close>).

  Entity ids are decimal numerals (item ids are \<^verbatim>\<open>"9" + itemCount\<close>); an id is modelled as the
  natural number it denotes, so that the key strings of the JavaScript objects and the
  values obtained by \<^verbatim>\<open>parseInt\<close> coincide. Entity objects are shared and mutated in place;
  the model keeps them in a store \<open>objs\<close> addressed by id (every entity object carries a unique
  id), and \<open>entities\<close>, \<open>players\<close>, \<open>mobs\<close>, \<open>items\<close> are the key sets of the registries.
  A reference that may be \<^verbatim>\<open>undefined\<close>/\<^verbatim>\<open>null\<close> is an \<open>ident option\<close>. The ids
  are non-empty strings in the code (built as \<^verbatim>\<open>"9" + itemCount\<close>, \<^verbatim>\<open>"7" + kind + count\<close>), so
  a test such as \<^verbatim>\<open>if (mob.target)\<close> is a test for \<^verbatim>\<open>null\<close>; were an id the number 0, the
  code would take it for no id, which the model does not follow.
  Group ids are strings; the empty string is the one falsy group id.

  Three fields of \<open>world\<close> stand for what lies outside the class: \<open>connections\<close> are the ids
  for which \<^verbatim>\<open>server.getConnection\<close> has a connection, \<open>sent\<close> lists the batches handed to
  \<^verbatim>\<open>connection.send\<close> (oldest first), and \<open>positionDraws\<close> are the positions the random
  \<^verbatim>\<open>getPositionNextTo\<close> will return. A raised TypeError is the value \<open>Inl TypeError\<close>.
\<close>

type_synonym ident = nat
type_synonym gid = string

datatype eclass = PlayerC | MobC | NpcC | ItemC | ChestC

datatype error = TypeError | NoValidPosition

text \<open>Modelled from the spec: the message catalogue. \<^verbatim>\<open>message.js\<close> and the methods
  \<^verbatim>\<open>despawn\<close>, \<^verbatim>\<open>drop\<close>, \<^verbatim>\<open>attack\<close> and \<^verbatim>\<open>health\<close> of the entity classes are not in the
  sources; a message carries the ids it is about (\<open>EntityList\<close> is the class \<^verbatim>\<open>List\<close>). The
  wire format is outside the world server: a queue holds the message itself where the
  code holds \<^verbatim>\<open>message.serialize()\<close>.\<close>

datatype message =
    Population nat
  | EntityList "ident list"
  | Spawn ident
  | Destroy ident
  | Despawn ident
  | Damage ident int
  | Kill ident
  | Drop ident ident
  | Move ident
  | Blink ident
  | Attack ident "ident option"
  | Health int

record entity =
  cls :: eclass
  kind :: "nat option"
  posx :: int
  posy :: int
  group :: "gid option"
  recentlyLeftGroups :: "gid list"
  hitPoints :: int
  target :: "ident option"
  hatelist :: "(ident \<times> int) list"
  attackers :: "ident list"
  haters :: "ident list"
  isStatic :: bool
  isFromChest :: bool

record zone_group =
  gentities :: "ident list"
  gplayers :: "ident list"
  incoming :: "ident list"

record world =
  objs :: "ident \<Rightarrow> entity"
  entities :: "ident set"
  players :: "ident set"
  mobs :: "ident set"
  items :: "ident set"
  groups :: "gid \<rightharpoonup> zone_group"
  outgoingQueues :: "(ident \<times> message list) list"
  itemCount :: nat
  connections :: "ident set"
  sent :: "(ident \<times> message list) list"
  positionDraws :: "(int \<times> int) list"

text \<open>
  The collaborators that are not part of \<^verbatim>\<open>worldserver.js\<close> are parameters of the model:
  the map (\<^verbatim>\<open>forEachAdjacentGroup\<close>, \<^verbatim>\<open>getGroupIdFromPosition\<close>, \<^verbatim>\<open>isOutOfBounds\<close>,
  \<^verbatim>\<open>isColliding\<close>), the kind tables of \<^verbatim>\<open>gametypes.js\<close> and the \<^verbatim>\<open>Properties\<close> table.
  An entry of \<open>Properties\<close> holds the \<^verbatim>\<open>drops\<close> table of a kind, in table order, or \<open>None\<close>
  when the entry has no \<^verbatim>\<open>drops\<close> field.
\<close>

record env =
  forEachAdjacentGroup :: "gid option \<Rightarrow> gid list"
  getGroupIdFromPosition :: "int \<Rightarrow> int \<Rightarrow> gid"
  isOutOfBounds :: "int \<Rightarrow> int \<Rightarrow> bool"
  isColliding :: "int \<Rightarrow> int \<Rightarrow> bool"
  getKindAsString :: "nat option \<Rightarrow> string option"
  getKindFromString :: "string \<Rightarrow> nat option"
  Properties :: "string \<rightharpoonup> (string \<times> int) list option"
  CHEST :: nat

definition bindE :: "error + 'a \<Rightarrow> ('a \<Rightarrow> error + 'b) \<Rightarrow> error + 'b" where
  "bindE m f = (case m of Inl e \<Rightarrow> Inl e | Inr a \<Rightarrow> f a)"

definition updObj :: "world \<Rightarrow> ident \<Rightarrow> (entity \<Rightarrow> entity) \<Rightarrow> world" where
  "updObj w e f = w\<lparr>objs := (objs w)(e := f (objs w e))\<rparr>"

definition updGroup :: "world \<Rightarrow> gid \<Rightarrow> zone_group \<Rightarrow> world" where
  "updGroup w g grp = w\<lparr>groups := (groups w)(g \<mapsto> grp)\<rparr>"

definition truthy :: "gid option \<Rightarrow> bool" where
  "truthy g = (case g of None \<Rightarrow> False | Some s \<Rightarrow> s \<noteq> [])"

section \<open>Outbound message pipeline\<close>

definition getEntityById :: "world \<Rightarrow> ident option \<Rightarrow> ident option" where
  "getEntityById w i =
     (case i of None \<Rightarrow> None
      | Some k \<Rightarrow> if k \<in> entities w then Some k else None)"

definition pushToPlayer :: "world \<Rightarrow> ident option \<Rightarrow> message \<Rightarrow> world" where
  "pushToPlayer w player message =
     (case player of
        None \<Rightarrow> w
      | Some p \<Rightarrow>
          if p \<in> fst ` set (outgoingQueues w)
          then w\<lparr>outgoingQueues :=
                 map (\<lambda>(k, q). if k = p then (k, q @ [message]) else (k, q)) (outgoingQueues w)\<rparr>
          else w)"

definition pushToGroup :: "world \<Rightarrow> gid \<Rightarrow> message \<Rightarrow> ident option \<Rightarrow> world" where
  "pushToGroup w groupId message ignoredPlayer =
     (case groups w groupId of
        None \<Rightarrow> w
      | Some grp \<Rightarrow>
          foldl (\<lambda>w' playerId.
                   if Some playerId \<noteq> ignoredPlayer
                   then pushToPlayer w' (getEntityById w' (Some playerId)) message
                   else w')
                w (gplayers grp))"

definition pushToAdjacentGroups :: "env \<Rightarrow> world \<Rightarrow> gid option \<Rightarrow> message \<Rightarrow> ident option \<Rightarrow> world" where
  "pushToAdjacentGroups E w groupId message ignoredPlayer =
     foldl (\<lambda>w' g. pushToGroup w' g message ignoredPlayer) w (forEachAdjacentGroup E groupId)"

definition pushToPreviousGroups :: "world \<Rightarrow> ident \<Rightarrow> message \<Rightarrow> world" where
  "pushToPreviousGroups w player message =
     updObj (foldl (\<lambda>w' g. pushToGroup w' g message None) w (recentlyLeftGroups (objs w player)))
            player (\<lambda>p. p\<lparr>recentlyLeftGroups := []\<rparr>)"

definition pushRelevantEntityListTo :: "world \<Rightarrow> ident \<Rightarrow> world" where
  "pushRelevantEntityListTo w player =
     (case group (objs w player) of
        None \<Rightarrow> w
      | Some g \<Rightarrow>
          (case groups w g of
             None \<Rightarrow> w
           | Some grp \<Rightarrow>
               pushToPlayer w (Some player)
                 (EntityList (filter (\<lambda>i. i \<noteq> player) (gentities grp)))))"

text \<open>
  \<^verbatim>\<open>processQueues\<close>: the queues are visited in the order of the list, where \<^verbatim>\<open>for ... in\<close>
  visits integer-like keys in ascending order: the batches of different players may stand
  in another order in \<open>sent\<close> than the code sends them, the batch of each player is the
  same. A non-empty queue is handed to
  the connection of its player (\<^verbatim>\<open>connection.send\<close> appends the batch to \<open>sent\<close>) and
  replaced by an empty one. \<^verbatim>\<open>getConnection\<close> yields \<^verbatim>\<open>undefined\<close> for an id without a
  connection, and the call of \<^verbatim>\<open>send\<close> on it is a TypeError.
\<close>

fun flushEntries ::
  "ident set \<Rightarrow> (ident \<times> message list) list \<Rightarrow>
     error + ((ident \<times> message list) list \<times> (ident \<times> message list) list)" where
  "flushEntries C [] = Inr ([], [])"
| "flushEntries C ((i, q) # rest) =
     (if length q > 0
      then (if i \<in> C
            then bindE (flushEntries C rest) (\<lambda>(qs, out). Inr ((i, []) # qs, (i, q) # out))
            else Inl TypeError)
      else bindE (flushEntries C rest) (\<lambda>(qs, out). Inr ((i, q) # qs, out)))"

definition processQueues :: "world \<Rightarrow> error + world" where
  "processQueues w =
     bindE (flushEntries (connections w) (outgoingQueues w))
       (\<lambda>(qs, out). Inr (w\<lparr>outgoingQueues := qs, sent := sent w @ out\<rparr>))"

section \<open>Interest manager: zone groups\<close>

text \<open>
  The roster \<^verbatim>\<open>group.entities\<close> is an object keyed by entity id; the model keeps its keys,
  in the order they were inserted (\<^verbatim>\<open>keys()\<close> lists integer-like keys in ascending order:
  the model fixes which ids a roster holds, not the order \<^verbatim>\<open>keys()\<close> gives them).
  \<open>rosterDelete\<close> is \<^verbatim>\<open>delete group.entities[id]\<close>, \<open>rosterInsert\<close> is
  \<^verbatim>\<open>group.entities[id] = entity\<close>.
\<close>

definition rosterDelete :: "ident \<Rightarrow> zone_group \<Rightarrow> zone_group" where
  "rosterDelete e grp = grp\<lparr>gentities := removeAll e (gentities grp)\<rparr>"

definition rosterInsert :: "ident \<Rightarrow> zone_group \<Rightarrow> zone_group" where
  "rosterInsert e grp =
     grp\<lparr>gentities := (if e \<in> set (gentities grp) then gentities grp else gentities grp @ [e])\<rparr>"

definition rosterOf :: "world \<Rightarrow> gid \<Rightarrow> ident list" where
  "rosterOf w g = (case groups w g of None \<Rightarrow> [] | Some grp \<Rightarrow> gentities grp)"

fun removeFromRosters :: "ident \<Rightarrow> gid list \<Rightarrow> gid list \<times> world \<Rightarrow> error + (gid list \<times> world)" where
  "removeFromRosters e [] acc = Inr acc"
| "removeFromRosters e (g # gs) (oldGroups, w) =
     (case groups w g of
        None \<Rightarrow> Inl TypeError
      | Some grp \<Rightarrow>
          if e \<in> set (gentities grp)
          then removeFromRosters e gs
                 (oldGroups @ [g], updGroup w g (rosterDelete e grp))
          else removeFromRosters e gs (oldGroups, w))"

definition removeFromGroups :: "env \<Rightarrow> world \<Rightarrow> ident \<Rightarrow> error + (gid list \<times> world)" where
  "removeFromGroups E w e =
     (case group (objs w e) of
        None \<Rightarrow> Inr ([], w)
      | Some g \<Rightarrow>
          if g = [] then Inr ([], w)
          else
            bindE (if cls (objs w e) = PlayerC
                   then (case groups w g of
                           None \<Rightarrow> Inl TypeError
                         | Some grp \<Rightarrow>
                             Inr (updGroup w g (grp\<lparr>gplayers := filter (\<lambda>i. i \<noteq> e) (gplayers grp)\<rparr>)))
                   else Inr w)
              (\<lambda>w1. bindE (removeFromRosters e (forEachAdjacentGroup E (Some g)) ([], w1))
                 (\<lambda>(oldGroups, w2). Inr (oldGroups, updObj w2 e (\<lambda>x. x\<lparr>group := None\<rparr>)))))"

text \<open>
  \<^verbatim>\<open>includes(group.entities, entity.id)\<close> searches the values of the roster object, which
  are entity objects, for an id: it never finds one.
\<close>

definition includesId :: "ident list \<Rightarrow> ident \<Rightarrow> bool" where
  "includesId roster i = False"

definition addAsIncomingToGroup :: "env \<Rightarrow> world \<Rightarrow> ident \<Rightarrow> gid \<Rightarrow> world" where
  "addAsIncomingToGroup E w e groupId =
     (let isChest = (cls (objs w e) = ChestC);
          isItem = (cls (objs w e) = ItemC \<or> cls (objs w e) = ChestC);
          isDroppedItem = (isItem \<and> \<not> isStatic (objs w e) \<and> \<not> isFromChest (objs w e))
      in if groupId \<noteq> []
         then foldl (\<lambda>w' g.
                 case groups w' g of
                   None \<Rightarrow> w'
                 | Some grp \<Rightarrow>
                     if \<not> includesId (gentities grp) e \<and>
                        (\<not> isItem \<or> isChest \<or> (isItem \<and> \<not> isDroppedItem))
                     then updGroup w' g (grp\<lparr>incoming := incoming grp @ [e]\<rparr>)
                     else w')
               w (forEachAdjacentGroup E (Some groupId))
         else w)"

fun addToRosters :: "ident \<Rightarrow> gid list \<Rightarrow> gid list \<times> world \<Rightarrow> error + (gid list \<times> world)" where
  "addToRosters e [] acc = Inr acc"
| "addToRosters e (g # gs) (newGroups, w) =
     (case groups w g of
        None \<Rightarrow> Inl TypeError
      | Some grp \<Rightarrow>
          addToRosters e gs (newGroups @ [g], updGroup w g (rosterInsert e grp)))"

definition addToGroup :: "env \<Rightarrow> world \<Rightarrow> ident \<Rightarrow> gid \<Rightarrow> error + (gid list \<times> world)" where
  "addToGroup E w e groupId =
     (if groupId \<noteq> [] \<and> groupId \<in> dom (groups w)
      then
        bindE (addToRosters e (forEachAdjacentGroup E (Some groupId)) ([], w))
          (\<lambda>(newGroups, w1).
             let w2 = updObj w1 e (\<lambda>x. x\<lparr>group := Some groupId\<rparr>)
             in if cls (objs w2 e) = PlayerC
                then (case groups w2 groupId of
                        None \<Rightarrow> Inl TypeError
                      | Some grp \<Rightarrow>
                          Inr (newGroups, updGroup w2 groupId (grp\<lparr>gplayers := gplayers grp @ [e]\<rparr>)))
                else Inr (newGroups, w2))
      else Inr ([], w))"

definition difference :: "gid list \<Rightarrow> gid list \<Rightarrow> gid list" where
  "difference xs ys = filter (\<lambda>g. g \<notin> set ys) xs"

definition handleEntityGroupMembership :: "env \<Rightarrow> world \<Rightarrow> ident \<Rightarrow> error + (bool \<times> world)" where
  "handleEntityGroupMembership E w e =
     (let groupId = getGroupIdFromPosition E (posx (objs w e)) (posy (objs w e))
      in if \<not> truthy (group (objs w e)) \<or>
            (truthy (group (objs w e)) \<and> group (objs w e) \<noteq> Some groupId)
         then
           bindE (removeFromGroups E (addAsIncomingToGroup E w e groupId) e)
             (\<lambda>(oldGroups, w2).
                bindE (addToGroup E w2 e groupId)
                  (\<lambda>(newGroups, w3).
                     if length oldGroups > 0
                     then Inr (True, updObj w3 e
                                 (\<lambda>x. x\<lparr>recentlyLeftGroups := difference oldGroups newGroups\<rparr>))
                     else Inr (True, w3)))
         else Inr (False, w))"

definition moveEntity :: "env \<Rightarrow> world \<Rightarrow> ident \<Rightarrow> int \<Rightarrow> int \<Rightarrow> error + world" where
  "moveEntity E w e px py =
     bindE (handleEntityGroupMembership E (updObj w e (\<lambda>x. x\<lparr>posx := px, posy := py\<rparr>)) e)
       (\<lambda>(changed, w1). Inr w1)"

section \<open>Entity registry\<close>

text \<open>Modelled from the spec: the constructors of \<^verbatim>\<open>Item\<close> and \<^verbatim>\<open>Chest\<close> (item.js, chest.js are
  not in the sources): a fresh item has its kind and position, no group, and is neither
  static nor from a chest.\<close>

definition newItem :: "eclass \<Rightarrow> nat option \<Rightarrow> int \<Rightarrow> int \<Rightarrow> entity" where
  "newItem c k px py =
     \<lparr>cls = c, kind = k, posx = px, posy = py, group = None, recentlyLeftGroups = [],
      hitPoints = 0, target = None, hatelist = [], attackers = [], haters = [],
      isStatic = False, isFromChest = False\<rparr>"

fun ndigits :: "nat \<Rightarrow> nat" where
  "ndigits n = (if n < 10 then 1 else Suc (ndigits (n div 10)))"

definition itemId :: "nat \<Rightarrow> ident" where
  "itemId n = 9 * 10 ^ ndigits n + n"

definition createItem :: "env \<Rightarrow> world \<Rightarrow> nat option \<Rightarrow> int \<Rightarrow> int \<Rightarrow> ident \<times> world" where
  "createItem E w k px py =
     (let i = itemId (itemCount w);
          w1 = w\<lparr>itemCount := Suc (itemCount w)\<rparr>
      in (i, w1\<lparr>objs := (objs w1)
                (i := newItem (if k = Some (CHEST E) then ChestC else ItemC) k px py)\<rparr>))"

definition addEntity :: "env \<Rightarrow> world \<Rightarrow> ident \<Rightarrow> error + world" where
  "addEntity E w e =
     bindE (handleEntityGroupMembership E (w\<lparr>entities := insert e (entities w)\<rparr>) e)
       (\<lambda>(changed, w1). Inr w1)"

definition addItem :: "env \<Rightarrow> world \<Rightarrow> ident \<Rightarrow> error + (ident \<times> world)" where
  "addItem E w item =
     bindE (addEntity E w item) (\<lambda>w1. Inr (item, w1\<lparr>items := insert item (items w1)\<rparr>))"

section \<open>Aggro and combat\<close>

text \<open>Modelled from the spec: \<^verbatim>\<open>addAttacker\<close> of player.js (not in the sources) adds the mob
  to the player's attacker set.\<close>

definition addAttacker :: "entity \<Rightarrow> ident \<Rightarrow> entity" where
  "addAttacker p m =
     p\<lparr>attackers := (if m \<in> set (attackers p) then attackers p else attackers p @ [m])\<rparr>"

text \<open>Modelled from the spec: \<^verbatim>\<open>removeAttacker\<close> of player.js (not in the sources) removes the
  mob from the player's attacker set.\<close>

definition removeAttacker :: "entity \<Rightarrow> ident \<Rightarrow> entity" where
  "removeAttacker p m = p\<lparr>attackers := removeAll m (attackers p)\<rparr>"

text \<open>Modelled from the spec: \<^verbatim>\<open>addHater\<close> of player.js (not in the sources) registers the mob
  in the player's hater set.\<close>

definition addHater :: "entity \<Rightarrow> ident \<Rightarrow> entity" where
  "addHater p m = p\<lparr>haters := (if m \<in> set (haters p) then haters p else haters p @ [m])\<rparr>"

text \<open>Modelled from the spec: \<^verbatim>\<open>removeHater\<close> of player.js (not in the sources) removes the
  mob from the player's hater set.\<close>

definition removeHater :: "entity \<Rightarrow> ident \<Rightarrow> entity" where
  "removeHater p m = p\<lparr>haters := removeAll m (haters p)\<rparr>"

text \<open>Modelled from the spec: \<^verbatim>\<open>setTarget\<close> of mob.js (not in the sources) sets
  \<^verbatim>\<open>mob.target\<close> to the player's id.\<close>

definition setTarget :: "entity \<Rightarrow> ident \<Rightarrow> entity" where
  "setTarget m p = m\<lparr>target := Some p\<rparr>"

text \<open>Modelled from the spec: \<^verbatim>\<open>clearTarget\<close> of mob.js (not in the sources) leaves the mob
  without a target.\<close>

definition clearTarget :: "entity \<Rightarrow> entity" where
  "clearTarget m = m\<lparr>target := None\<rparr>"

text \<open>Modelled from the spec: \<^verbatim>\<open>increaseHateFor\<close> of mob.js (not in the sources) adds the
  points to the hatelist entry of the player, creating it if absent.\<close>

definition increaseHateFor :: "entity \<Rightarrow> ident \<Rightarrow> int \<Rightarrow> entity" where
  "increaseHateFor m playerId points =
     m\<lparr>hatelist :=
        (if playerId \<in> fst ` set (hatelist m)
         then map (\<lambda>(i, h). if i = playerId then (i, h + points) else (i, h)) (hatelist m)
         else hatelist m @ [(playerId, points)])\<rparr>"

text \<open>Modelled from the spec: \<^verbatim>\<open>getHatedPlayerId\<close> of mob.js (not in the sources) resolves the
  player with the given hate rank, rank 1 (the default) being the highest accumulated hate
  and rank 2 the next most hated. The spec names no player for a rank beyond the hatelist:
  the result is then \<^verbatim>\<open>undefined\<close>.\<close>

definition getHatedPlayerId :: "entity \<Rightarrow> nat option \<Rightarrow> ident option" where
  "getHatedPlayerId m hateRank =
     (let ranked = rev (sort_key snd (hatelist m));
          r = (case hateRank of None \<Rightarrow> 1 | Some k \<Rightarrow> k)
      in if 0 < r \<and> r \<le> length ranked then Some (fst (ranked ! (r - 1))) else None)"

text \<open>Modelled from the spec: \<^verbatim>\<open>forgetPlayer\<close> of mob.js (not in the sources) makes the mob
  forget the player: the player's hatelist entry is dropped (the cooldown is a timer).\<close>

definition forgetPlayer :: "entity \<Rightarrow> ident \<Rightarrow> entity" where
  "forgetPlayer m playerId = m\<lparr>hatelist := filter (\<lambda>(i, h). i \<noteq> playerId) (hatelist m)\<rparr>"

text \<open>Modelled from the spec: \<^verbatim>\<open>destroy\<close> of the entity classes (not in the sources); for a
  mob it clears the target, other aggro fields are as the world server left them.\<close>

definition destroy :: "entity \<Rightarrow> entity" where
  "destroy x = (if cls x = MobC then clearTarget x else x)"

definition clearMobAggroLink :: "world \<Rightarrow> ident \<Rightarrow> world" where
  "clearMobAggroLink w mob =
     (case target (objs w mob) of
        None \<Rightarrow> w
      | Some t \<Rightarrow>
          (case getEntityById w (Some t) of
             None \<Rightarrow> w
           | Some player \<Rightarrow> updObj w player (\<lambda>p. removeAttacker p mob)))"

definition clearMobHateLinks :: "world \<Rightarrow> ident \<Rightarrow> world" where
  "clearMobHateLinks w mob =
     foldl (\<lambda>w' obj.
              case getEntityById w' (Some (fst obj)) of
                None \<Rightarrow> w'
              | Some player \<Rightarrow> updObj w' player (\<lambda>p. removeHater p mob))
           w (hatelist (objs w mob))"

definition removeEntity :: "env \<Rightarrow> world \<Rightarrow> ident \<Rightarrow> error + world" where
  "removeEntity E w e =
     (let w1 = w\<lparr>entities := entities w - {e}, mobs := mobs w - {e}, items := items w - {e}\<rparr>;
          w2 = (if cls (objs w1 e) = MobC
                then clearMobHateLinks (clearMobAggroLink w1 e) e
                else w1);
          w3 = updObj w2 e destroy
      in bindE (removeFromGroups E w3 e) (\<lambda>(oldGroups, w4). Inr w4))"

text \<open>
  \<^verbatim>\<open>findPositionNextTo\<close> draws candidate positions (\<^verbatim>\<open>entity.getPositionNextTo(target)\<close>,
  a random choice) until one is valid. \<open>positionDraws\<close> holds the values the successive draws
  return; the loop has not returned when they are used up.
\<close>

definition isValidPosition :: "env \<Rightarrow> int \<Rightarrow> int \<Rightarrow> bool" where
  "isValidPosition E px py = (\<not> isOutOfBounds E px py \<and> \<not> isColliding E px py)"

fun findPositionNextTo :: "env \<Rightarrow> (int \<times> int) list \<Rightarrow> ((int \<times> int) \<times> (int \<times> int) list) option" where
  "findPositionNextTo E [] = None"
| "findPositionNextTo E (pos # rest) =
     (if isValidPosition E (fst pos) (snd pos) then Some (pos, rest)
      else findPositionNextTo E rest)"

text \<open>The callback registered with \<^verbatim>\<open>onEntityAttack\<close> in the constructor.\<close>

definition attack_callback :: "env \<Rightarrow> world \<Rightarrow> ident \<Rightarrow> error + world" where
  "attack_callback E w attacker =
     (case getEntityById w (target (objs w attacker)) of
        None \<Rightarrow> Inr w
      | Some t \<Rightarrow>
          if cls (objs w attacker) = MobC
          then (case findPositionNextTo E (positionDraws w) of
                  None \<Rightarrow> Inl NoValidPosition
                | Some (pos, rest) \<Rightarrow>
                    moveEntity E (w\<lparr>positionDraws := rest\<rparr>) attacker (fst pos) (snd pos))
          else Inr w)"

definition broadcastAttacker :: "env \<Rightarrow> world \<Rightarrow> ident \<Rightarrow> error + world" where
  "broadcastAttacker E w character =
     attack_callback E
       (pushToAdjacentGroups E w (group (objs w character))
          (Attack character (target (objs w character))) (Some character))
       character"

definition chooseMobTarget :: "env \<Rightarrow> world \<Rightarrow> ident \<Rightarrow> nat option \<Rightarrow> error + world" where
  "chooseMobTarget E w mob hateRank =
     (case getEntityById w (getHatedPlayerId (objs w mob) hateRank) of
        None \<Rightarrow> Inr w
      | Some player \<Rightarrow>
          if mob \<notin> set (attackers (objs w player))
          then
            (let w1 = clearMobAggroLink w mob;
                 w2 = updObj w1 player (\<lambda>p. addAttacker p mob);
                 w3 = updObj w2 mob (\<lambda>m. setTarget m player)
             in broadcastAttacker E w3 mob)
          else Inr w)"

definition handleMobHate :: "env \<Rightarrow> world \<Rightarrow> ident \<Rightarrow> ident \<Rightarrow> int \<Rightarrow> error + world" where
  "handleMobHate E w mobId playerId hatePoints =
     (case (getEntityById w (Some mobId), getEntityById w (Some playerId)) of
        (Some mob, Some player) \<Rightarrow>
          (let w1 = updObj w mob (\<lambda>m. increaseHateFor m playerId hatePoints);
               w2 = updObj w1 player (\<lambda>p. addHater p mob)
           in if hitPoints (objs w2 mob) > 0
              then chooseMobTarget E w2 mob None
              else Inr w2)
      | _ \<Rightarrow> Inr w)"

text \<open>
  The first loop of \<^verbatim>\<open>handlePlayerVanish\<close>, over the attackers the player has when it
  starts (\<^verbatim>\<open>forEachAttacker\<close>); the second loop goes over the same mobs
  (\<^verbatim>\<open>previousAttackers\<close>).
\<close>

fun retargetAll :: "env \<Rightarrow> ident list \<Rightarrow> world \<Rightarrow> error + world" where
  "retargetAll E [] w = Inr w"
| "retargetAll E (mob # rest) w =
     bindE (chooseMobTarget E w mob (Some 2)) (retargetAll E rest)"

definition handlePlayerVanish :: "env \<Rightarrow> world \<Rightarrow> ident \<Rightarrow> error + world" where
  "handlePlayerVanish E w player =
     (let previousAttackers = attackers (objs w player)
      in bindE (retargetAll E previousAttackers w)
           (\<lambda>w1.
              let w2 = foldl (\<lambda>w' mob.
                               updObj (updObj (updObj w' player (\<lambda>p. removeAttacker p mob))
                                          mob clearTarget)
                                      mob (\<lambda>m. forgetPlayer m player))
                             w1 previousAttackers
              in bindE (handleEntityGroupMembership E w2 player) (\<lambda>(changed, w3). Inr w3)))"

text \<open>
  The loop of \<^verbatim>\<open>getDroppedItem\<close> over the \<^verbatim>\<open>drops\<close> table, for the draw \<open>v\<close> and the
  sum \<open>p\<close> accumulated so far: the name of the entry at which the loop breaks.
\<close>

fun dropLoop :: "int \<Rightarrow> int \<Rightarrow> (string \<times> int) list \<Rightarrow> string option" where
  "dropLoop v p [] = None"
| "dropLoop v p ((itemName, percentage) # rest) =
     (if v \<le> p + percentage then Some itemName else dropLoop v (p + percentage) rest)"

text \<open>
  \<^verbatim>\<open>Properties[kind]\<close> with \<^verbatim>\<open>kind = undefined\<close> reads the key \<^verbatim>\<open>"undefined"\<close>.
\<close>

definition propertyKey :: "string option \<Rightarrow> string" where
  "propertyKey k = (case k of None \<Rightarrow> ''undefined'' | Some s \<Rightarrow> s)"

text \<open>The entries a \<^verbatim>\<open>for ... in\<close> over \<^verbatim>\<open>drops\<close> visits: none when the table is missing.\<close>

definition dropsTable :: "(string \<times> int) list option \<Rightarrow> (string \<times> int) list" where
  "dropsTable drops = (case drops of None \<Rightarrow> [] | Some d \<Rightarrow> d)"

text \<open>
  \<^verbatim>\<open>getDroppedItem\<close>, for the value \<open>v\<close> that \<^verbatim>\<open>Utils.random(100)\<close> returns. Reading
  \<^verbatim>\<open>.drops\<close> of a missing \<^verbatim>\<open>Properties\<close> entry is a TypeError; a \<^verbatim>\<open>for ... in\<close> over a
  missing \<^verbatim>\<open>drops\<close> table runs no iteration.
\<close>

definition getDroppedItem :: "env \<Rightarrow> world \<Rightarrow> ident \<Rightarrow> int \<Rightarrow> error + (ident option \<times> world)" where
  "getDroppedItem E w mob v =
     (case Properties E (propertyKey (getKindAsString E (kind (objs w mob)))) of
        None \<Rightarrow> Inl TypeError
      | Some drops \<Rightarrow>
          (case dropLoop v 0 (dropsTable drops) of
             None \<Rightarrow> Inr (None, w)
           | Some itemName \<Rightarrow>
               (let (i, w1) = createItem E w (getKindFromString E itemName)
                                (posx (objs w mob)) (posy (objs w mob))
                in bindE (addItem E w1 i) (\<lambda>(item, w2). Inr (Some item, w2)))))"

text \<open>\<^verbatim>\<open>handleItemDespawn\<close> only schedules the blink and despawn timers of the item.\<close>

definition handleItemDespawn :: "world \<Rightarrow> ident option \<Rightarrow> world" where
  "handleItemDespawn w item = w"

text \<open>
  The two blocks of \<^verbatim>\<open>handleHurtEntity\<close> for an entity about to die: the one for a mob
  (\<open>mobDeath\<close>) and the one for a player (\<open>playerDeath\<close>).
\<close>

definition mobDeath :: "env \<Rightarrow> world \<Rightarrow> ident \<Rightarrow> ident option \<Rightarrow> int \<Rightarrow> error + world" where
  "mobDeath E w mob attacker v =
     bindE (getDroppedItem E w mob v)
       (\<lambda>(item, w3).
          let w4 = pushToPlayer w3 attacker (Kill mob);
              w5 = pushToAdjacentGroups E w4 (group (objs w4 mob)) (Despawn mob) None
          in Inr (case item of
                    None \<Rightarrow> w5
                  | Some it \<Rightarrow>
                      handleItemDespawn
                        (pushToAdjacentGroups E w5 (group (objs w5 mob)) (Drop mob it) None)
                        (Some it)))"

definition playerDeath :: "env \<Rightarrow> world \<Rightarrow> ident \<Rightarrow> error + world" where
  "playerDeath E w player =
     bindE (handlePlayerVanish E w player)
       (\<lambda>w7. Inr (pushToAdjacentGroups E w7 (group (objs w7 player)) (Despawn player) None))"

definition handleHurtEntity ::
  "env \<Rightarrow> world \<Rightarrow> ident \<Rightarrow> ident option \<Rightarrow> int \<Rightarrow> int \<Rightarrow> error + world" where
  "handleHurtEntity E w entity attacker damage v =
     (let w1 = (if cls (objs w entity) = PlayerC
                then pushToPlayer w (Some entity) (Health (hitPoints (objs w entity)))
                else w);
          w2 = (if cls (objs w1 entity) = MobC
                then pushToPlayer w1 attacker (Damage entity damage)
                else w1)
      in if hitPoints (objs w2 entity) \<le> 0
         then
           bindE (if cls (objs w2 entity) = MobC
                  then mobDeath E w2 entity attacker v
                  else Inr w2)
             (\<lambda>w6.
                bindE (if cls (objs w6 entity) = PlayerC
                       then playerDeath E w6 entity
                       else Inr w6)
                  (\<lambda>w8. removeEntity E w8 entity))
         else Inr w2)"

section \<open>Auxiliary notions\<close>

text \<open>The group table with \<open>f\<close> applied to the groups of \<open>S\<close>: what the loops over the adjacent groups compute.\<close>

definition mapGroups :: "(zone_group \<Rightarrow> zone_group) \<Rightarrow> gid set \<Rightarrow> world \<Rightarrow> world" where
  "mapGroups f S w =
     w\<lparr>groups := (\<lambda>g. if g \<in> S then map_option f (groups w g) else groups w g)\<rparr>"

text \<open>Two worlds that differ at most in the incoming buffers of their groups.\<close>

definition sameButIncoming :: "world \<Rightarrow> world \<Rightarrow> bool" where
  "sameButIncoming w w' \<longleftrightarrow>
     w\<lparr>groups := groups w'\<rparr> = w' \<and>
     (\<forall>g. map_option (\<lambda>grp. (gentities grp, gplayers grp)) (groups w' g) =
          map_option (\<lambda>grp. (gentities grp, gplayers grp)) (groups w g))"

text \<open>The player list of a group (empty for an id that is not in the table).\<close>

definition playersOf :: "world \<Rightarrow> gid \<Rightarrow> ident list" where
  "playersOf w g = (case groups w g of None \<Rightarrow> [] | Some grp \<Rightarrow> gplayers grp)"

text \<open>The closed form of \<^verbatim>\<open>removeFromGroups\<close> for an entity with a group.\<close>

definition leavePlayers :: "world \<Rightarrow> ident \<Rightarrow> gid \<Rightarrow> world" where
  "leavePlayers w e g =
     (if cls (objs w e) = PlayerC
      then (case groups w g of None \<Rightarrow> w
            | Some grp \<Rightarrow> updGroup w g (grp\<lparr>gplayers := filter (\<lambda>i. i \<noteq> e) (gplayers grp)\<rparr>))
      else w)"

text \<open>The closed form of \<^verbatim>\<open>addToGroup\<close> for a group of the table.\<close>

definition joinPlayers :: "world \<Rightarrow> ident \<Rightarrow> gid \<Rightarrow> world" where
  "joinPlayers w e g =
     (if cls (objs w e) = PlayerC
      then (case groups w g of None \<Rightarrow> w
            | Some grp \<Rightarrow> updGroup w g (grp\<lparr>gplayers := gplayers grp @ [e]\<rparr>))
      else w)"

text \<open>
  What a membership update of entity \<open>e\<close> leaves alone: everything but the group table, and
  the \<open>group\<close> and \<open>recentlyLeftGroups\<close> fields of \<open>e\<close>; the player lists of the groups
  too when \<open>e\<close> is not a player.
\<close>

definition sameUpToGroup :: "entity \<Rightarrow> entity \<Rightarrow> bool" where
  "sameUpToGroup x x' \<longleftrightarrow>
     x'\<lparr>group := None, recentlyLeftGroups := []\<rparr> = x\<lparr>group := None, recentlyLeftGroups := []\<rparr>"

definition groupFrame :: "ident \<Rightarrow> world \<Rightarrow> world \<Rightarrow> bool" where
  "groupFrame e w w' \<longleftrightarrow>
     entities w' = entities w \<and> players w' = players w \<and> mobs w' = mobs w \<and>
     items w' = items w \<and> outgoingQueues w' = outgoingQueues w \<and>
     itemCount w' = itemCount w \<and> connections w' = connections w \<and> sent w' = sent w \<and>
     positionDraws w' = positionDraws w \<and>
     dom (groups w') = dom (groups w) \<and>
     (\<forall>i. i \<noteq> e \<longrightarrow> objs w' i = objs w i) \<and>
     sameUpToGroup (objs w e) (objs w' e) \<and>
     (cls (objs w e) \<noteq> PlayerC \<longrightarrow> (\<forall>h. playersOf w' h = playersOf w h))"

text \<open>The map names only groups of the table as adjacent to a group of the table.\<close>

definition adjacencyClosed :: "env \<Rightarrow> world \<Rightarrow> bool" where
  "adjacencyClosed E w \<longleftrightarrow>
     (\<forall>g \<in> dom (groups w). set (forEachAdjacentGroup E (Some g)) \<subseteq> dom (groups w))"

text \<open>The group \<^verbatim>\<open>handleEntityGroupMembership\<close> computes from the position of the entity.\<close>

definition computedGroup :: "env \<Rightarrow> world \<Rightarrow> ident \<Rightarrow> gid" where
  "computedGroup E w e = getGroupIdFromPosition E (posx (objs w e)) (posy (objs w e))"

text \<open>The groups whose rosters a membership update removes the entity from: the groups
  adjacent to its old group that hold it.\<close>

definition leftRosters :: "env \<Rightarrow> world \<Rightarrow> ident \<Rightarrow> gid set" where
  "leftRosters E w e =
     (if truthy (group (objs w e))
      then {h \<in> set (forEachAdjacentGroup E (group (objs w e))). e \<in> set (rosterOf w h)}
      else {})"

text \<open>The new halo: the groups adjacent to the computed group, when that is a group of the
  table (no group is joined otherwise).\<close>

definition newHalo :: "env \<Rightarrow> world \<Rightarrow> ident \<Rightarrow> gid list" where
  "newHalo E w e =
     (if computedGroup E w e \<noteq> [] \<and> computedGroup E w e \<in> dom (groups w)
      then forEachAdjacentGroup E (Some (computedGroup E w e))
      else [])"

text \<open>The outgoing queue of a player, if it has one.\<close>

definition queueOf :: "world \<Rightarrow> ident \<Rightarrow> message list option" where
  "queueOf w p = map_of (outgoingQueues w) p"

text \<open>A sequence of \<^verbatim>\<open>pushToPlayer\<close> calls, in order.\<close>

definition pushSeq :: "world \<Rightarrow> (ident option \<times> message) list \<Rightarrow> world" where
  "pushSeq w ps = foldl (\<lambda>w' pm. pushToPlayer w' (fst pm) (snd pm)) w ps"

text \<open>Appending messages to the queue entry of player \<open>p\<close>.\<close>

definition appendTo :: "ident \<Rightarrow> message list \<Rightarrow> ident \<times> message list \<Rightarrow> ident \<times> message list" where
  "appendTo p ms kq = (if fst kq = p then (fst kq, snd kq @ ms) else kq)"

text \<open>The messages of a sequence of pushes that are addressed to player \<open>k\<close>, in push order.\<close>

definition messagesFor :: "ident \<Rightarrow> (ident option \<times> message) list \<Rightarrow> message list" where
  "messagesFor k ps = map snd (filter (\<lambda>pm. fst pm = Some k) ps)"

text \<open>The players \<^verbatim>\<open>pushToGroup\<close> pushes to: those of the player list that are not ignored
  and are registered entities.\<close>

definition groupRecipients :: "world \<Rightarrow> gid \<Rightarrow> ident option \<Rightarrow> ident list" where
  "groupRecipients w g ignoredPlayer =
     filter (\<lambda>p. Some p \<noteq> ignoredPlayer \<and> p \<in> entities w) (playersOf w g)"

text \<open>The players \<^verbatim>\<open>pushToAdjacentGroups\<close> pushes to, group by group, in order.\<close>

definition adjacentRecipients :: "env \<Rightarrow> world \<Rightarrow> gid option \<Rightarrow> ident option \<Rightarrow> ident list" where
  "adjacentRecipients E w g ignoredPlayer =
     concat (map (\<lambda>h. groupRecipients w h ignoredPlayer) (forEachAdjacentGroup E g))"

text \<open>One push of the message to each player of a list.\<close>

definition toAll :: "ident list \<Rightarrow> message \<Rightarrow> (ident option \<times> message) list" where
  "toAll ps m = map (\<lambda>p. (Some p, m)) ps"

text \<open>The kind of the item a loot roll returned, if it returned one.\<close>

definition dropKind :: "error + (ident option \<times> world) \<Rightarrow> error + nat option option" where
  "dropKind r = map_sum id (\<lambda>(item, w'). map_option (\<lambda>i. kind (objs w' i)) item) r"

text \<open>
  The symmetry of the aggro links, over the registered mobs and players, and the worlds
  that agree on what it reads.
\<close>

definition aggroSymmetric :: "world \<Rightarrow> bool" where
  "aggroSymmetric w \<longleftrightarrow>
     (\<forall>m \<in> entities w. \<forall>p \<in> entities w.
        cls (objs w m) = MobC \<and> cls (objs w p) = PlayerC \<longrightarrow>
          (target (objs w m) = Some p \<longleftrightarrow> m \<in> set (attackers (objs w p))))"

definition sameAggro :: "world \<Rightarrow> world \<Rightarrow> bool" where
  "sameAggro w w' \<longleftrightarrow>
     entities w' = entities w \<and>
     (\<forall>i. cls (objs w' i) = cls (objs w i) \<and> target (objs w' i) = target (objs w i) \<and>
          attackers (objs w' i) = attackers (objs w i))"

section \<open>The loot roll as the specification words it\<close>

text \<open>The specification of the loot roll: the cumulative sum at entry \<open>i\<close> of the table, and the
  first entry, in table order, whose cumulative sum is at least the draw.\<close>

definition cumulative :: "(string \<times> int) list \<Rightarrow> nat \<Rightarrow> int" where
  "cumulative drops i = sum_list (map snd (take (Suc i) drops))"

definition firstCumulativeWinner :: "int \<Rightarrow> (string \<times> int) list \<Rightarrow> string option" where
  "firstCumulativeWinner v drops =
     (case filter (\<lambda>i. v \<le> cumulative drops i) [0..<length drops] of
        [] \<Rightarrow> None
      | i # _ \<Rightarrow> Some (fst (drops ! i)))"

section \<open>Sample worlds\<close>

text \<open>An entity with every field at its default.\<close>

definition blank :: entity where
  "blank = \<lparr>cls = NpcC, kind = None, posx = 0, posy = 0, group = None, recentlyLeftGroups = [],
      hitPoints = 0, target = None, hatelist = [], attackers = [], haters = [],
      isStatic = False, isFromChest = False\<rparr>"

text \<open>A map of two zones, each adjacent to itself only, and a loot table \<open>{A: 30, B: 20}\<close> for
  the kind \<open>rat\<close>; the kind \<open>bat\<close> has no \<^verbatim>\<open>drops\<close> table and kind 99 is unknown.\<close>

definition sampleEnv :: env where
  "sampleEnv =
     \<lparr>forEachAdjacentGroup = (\<lambda>g. case g of None \<Rightarrow> [] | Some s \<Rightarrow> [s]),
      getGroupIdFromPosition = (\<lambda>px py. if px < 10 then ''0-0'' else ''1-0''),
      isOutOfBounds = (\<lambda>px py. px < 0 \<or> py < 0),
      isColliding = (\<lambda>px py. False),
      getKindAsString = (\<lambda>k. if k = Some 2 then Some ''rat'' else if k = Some 3 then Some ''bat'' else None),
      getKindFromString = (\<lambda>s. if s = ''A'' then Some 20 else if s = ''B'' then Some 21 else None),
      Properties = [''rat'' \<mapsto> Some [(''A'', 30), (''B'', 20)], ''bat'' \<mapsto> None],
      CHEST = 37\<rparr>"

definition lootWorld :: world where
  "lootWorld =
     \<lparr>objs = (\<lambda>i. blank)
        (1 := blank\<lparr>cls := MobC, kind := Some 2, posx := 3, posy := 4, group := Some ''0-0''\<rparr>,
         2 := blank\<lparr>cls := MobC, kind := Some 99, posx := 3, posy := 4, group := Some ''0-0''\<rparr>,
         3 := blank\<lparr>cls := MobC, kind := Some 3, posx := 3, posy := 4, group := Some ''0-0''\<rparr>),
      entities = {1, 2, 3}, players = {}, mobs = {1, 2, 3}, items = {},
      groups = [''0-0'' \<mapsto> \<lparr>gentities = [1, 2, 3], gplayers = [], incoming = []\<rparr>,
                ''1-0'' \<mapsto> \<lparr>gentities = [], gplayers = [], incoming = []\<rparr>],
      outgoingQueues = [], itemCount = 0, connections = {}, sent = [], positionDraws = []\<rparr>"

text \<open>Two players with queues, before and after a flush.\<close>

definition queueWorld :: world where
  "queueWorld =
     \<lparr>objs = (\<lambda>i. blank), entities = {1, 2}, players = {1, 2}, mobs = {}, items = {},
      groups = Map.empty,
      outgoingQueues = [(1, [Population 2]), (2, [])],
      itemCount = 0, connections = {1, 2}, sent = [], positionDraws = []\<rparr>"

definition flushedQueueWorld :: world where
  "flushedQueueWorld = queueWorld\<lparr>outgoingQueues := [(1, []), (2, [])], sent := [(1, [Population 2])]\<rparr>"

text \<open>Two players in different groups; the second is alone in its roster.\<close>

definition listWorld :: world where
  "listWorld =
     \<lparr>objs = (\<lambda>i. blank)
        (3 := blank\<lparr>cls := PlayerC, group := Some ''0-0''\<rparr>,
         2 := blank\<lparr>cls := PlayerC, group := Some ''1-0''\<rparr>),
      entities = {2, 3, 5, 6}, players = {2, 3}, mobs = {5, 6}, items = {},
      groups = [''0-0'' \<mapsto> \<lparr>gentities = [3, 5, 6], gplayers = [3], incoming = []\<rparr>,
                ''1-0'' \<mapsto> \<lparr>gentities = [2], gplayers = [2], incoming = []\<rparr>],
      outgoingQueues = [(3, [Population 2]), (2, [])],
      itemCount = 0, connections = {2, 3}, sent = [], positionDraws = []\<rparr>"

text \<open>A strip of four zones \<open>z0\<close> to \<open>z3\<close>; a zone is adjacent to itself and its neighbours.\<close>

definition haloEnv :: env where
  "haloEnv =
     \<lparr>forEachAdjacentGroup =
        (\<lambda>g. if g = Some ''z0'' then [''z0'', ''z1'']
             else if g = Some ''z1'' then [''z0'', ''z1'', ''z2'']
             else if g = Some ''z2'' then [''z1'', ''z2'', ''z3'']
             else if g = Some ''z3'' then [''z2'', ''z3'']
             else []),
      getGroupIdFromPosition =
        (\<lambda>px py. if px < 10 then ''z0'' else if px < 20 then ''z1''
                  else if px < 30 then ''z2'' else ''z3''),
      isOutOfBounds = (\<lambda>px py. px < 0 \<or> py < 0 \<or> 40 \<le> px),
      isColliding = (\<lambda>px py. False),
      getKindAsString = (\<lambda>k. if k = Some 2 then Some ''rat'' else None),
      getKindFromString = (\<lambda>s. if s = ''A'' then Some 20 else if s = ''B'' then Some 21 else None),
      Properties = [''rat'' \<mapsto> Some [(''A'', 30), (''B'', 20)]],
      CHEST = 37\<rparr>"

definition haloWorld :: world where
  "haloWorld =
     \<lparr>objs = (\<lambda>i. blank)
        (5 := blank\<lparr>cls := MobC, kind := Some 2, posx := 25, posy := 4, hitPoints := 10,
                     group := Some ''z0''\<rparr>,
         6 := blank\<lparr>cls := MobC, kind := Some 2, posx := 12, posy := 4, hitPoints := 10,
                     group := Some ''z1''\<rparr>),
      entities = {5, 6}, players = {}, mobs = {5, 6}, items = {},
      groups = [''z0'' \<mapsto> \<lparr>gentities = [5, 6], gplayers = [], incoming = []\<rparr>,
                ''z1'' \<mapsto> \<lparr>gentities = [5, 6], gplayers = [], incoming = []\<rparr>,
                ''z2'' \<mapsto> \<lparr>gentities = [6], gplayers = [], incoming = []\<rparr>,
                ''z3'' \<mapsto> \<lparr>gentities = [], gplayers = [], incoming = []\<rparr>],
      outgoingQueues = [], itemCount = 0, connections = {}, sent = [], positionDraws = []\<rparr>"

text \<open>A dying mob in zone \<open>z1\<close>, its attacker in the same zone, a player in the adjacent
  zone \<open>z2\<close> and one in zone \<open>z3\<close>.\<close>

definition combatWorld :: world where
  "combatWorld =
     \<lparr>objs = (\<lambda>i. blank)
        (2 := blank\<lparr>cls := PlayerC, posx := 14, posy := 4, hitPoints := 80, group := Some ''z1''\<rparr>,
         3 := blank\<lparr>cls := PlayerC, posx := 22, posy := 4, hitPoints := 80, group := Some ''z2''\<rparr>,
         4 := blank\<lparr>cls := PlayerC, posx := 35, posy := 4, hitPoints := 80, group := Some ''z3''\<rparr>,
         5 := blank\<lparr>cls := MobC, kind := Some 2, posx := 15, posy := 4, hitPoints := 0,
                     group := Some ''z1'', target := Some 2, hatelist := [(2, 7)]\<rparr>),
      entities = {2, 3, 4, 5}, players = {2, 3, 4}, mobs = {5}, items = {},
      groups = [''z0'' \<mapsto> \<lparr>gentities = [2, 5], gplayers = [], incoming = []\<rparr>,
                ''z1'' \<mapsto> \<lparr>gentities = [2, 3, 5], gplayers = [2], incoming = []\<rparr>,
                ''z2'' \<mapsto> \<lparr>gentities = [2, 3, 4, 5], gplayers = [3], incoming = []\<rparr>,
                ''z3'' \<mapsto> \<lparr>gentities = [3, 4], gplayers = [4], incoming = []\<rparr>],
      outgoingQueues = [(2, []), (3, []), (4, [])], itemCount = 0, connections = {2, 3, 4},
      sent = [], positionDraws = []\<rparr>"

text \<open>Two players and a mob in one zone, before any hate.\<close>

definition calmWorld :: world where
  "calmWorld =
     \<lparr>objs = (\<lambda>i. blank)
        (2 := blank\<lparr>cls := PlayerC, posx := 14, posy := 4, hitPoints := 0, group := Some ''z1''\<rparr>,
         3 := blank\<lparr>cls := PlayerC, posx := 16, posy := 4, hitPoints := 80, group := Some ''z1''\<rparr>,
         5 := blank\<lparr>cls := MobC, kind := Some 2, posx := 15, posy := 4, hitPoints := 10,
                     group := Some ''z1''\<rparr>),
      entities = {2, 3, 5}, players = {2, 3}, mobs = {5}, items = {},
      groups = [''z0'' \<mapsto> \<lparr>gentities = [2, 3, 5], gplayers = [], incoming = []\<rparr>,
                ''z1'' \<mapsto> \<lparr>gentities = [2, 3, 5], gplayers = [2, 3], incoming = []\<rparr>,
                ''z2'' \<mapsto> \<lparr>gentities = [2, 3, 5], gplayers = [], incoming = []\<rparr>,
                ''z3'' \<mapsto> \<lparr>gentities = [], gplayers = [], incoming = []\<rparr>],
      outgoingQueues = [(2, []), (3, [])], itemCount = 0, connections = {2, 3},
      sent = [], positionDraws = [(50, 4), (14, 5), (16, 5)]\<rparr>"

section \<open>Lemmas on the group table\<close>

lemma bindE_Inr_iff:
  "bindE m f = Inr r \<longleftrightarrow> (\<exists>a. m = Inr a \<and> f a = Inr r)"
  by (cases m) (simp_all add: bindE_def)

lemma rosterDelete_idem: "rosterDelete e (rosterDelete e grp) = rosterDelete e grp"
  by (simp add: rosterDelete_def)

lemma rosterDelete_absent: "e \<notin> set (gentities grp) \<Longrightarrow> rosterDelete e grp = grp"
  by (simp add: rosterDelete_def)

lemma rosterInsert_idem: "rosterInsert e (rosterInsert e grp) = rosterInsert e grp"
  by (simp add: rosterInsert_def)

lemma removeFromRosters_result:
  "removeFromRosters e gs (old, w) = Inr (old', w') \<Longrightarrow>
     w' = mapGroups (rosterDelete e) (set gs) w \<and>
     set old' = set old \<union> {g \<in> set gs. e \<in> set (rosterOf w g)} \<and>
     set gs \<subseteq> dom (groups w)"
proof (induction gs arbitrary: old w)
  case Nil
  then show ?case by (simp add: mapGroups_def)
next
  case (Cons g gs)
  from Cons.prems obtain grp where grp: "groups w g = Some grp"
    by (auto split: option.splits)
  show ?case
  proof (cases "e \<in> set (gentities grp)")
    case True
    let ?w1 = "updGroup w g (rosterDelete e grp)"
    from Cons.prems grp True
    have "removeFromRosters e gs (old @ [g], ?w1) = Inr (old', w')" by simp
    from Cons.IH [OF this]
    have w': "w' = mapGroups (rosterDelete e) (set gs) ?w1"
      and old': "set old' = set (old @ [g]) \<union> {h \<in> set gs. e \<in> set (rosterOf ?w1 h)}"
      and sub: "set gs \<subseteq> dom (groups ?w1)" by auto
    have 1: "w' = mapGroups (rosterDelete e) (set (g # gs)) w"
      unfolding w' mapGroups_def updGroup_def
      by (auto simp: fun_eq_iff grp rosterDelete_idem)
    have 2: "\<And>h. h \<noteq> g \<Longrightarrow> rosterOf ?w1 h = rosterOf w h"
      by (simp add: rosterOf_def updGroup_def)
    have 3: "e \<notin> set (rosterOf ?w1 g)"
      by (simp add: rosterOf_def updGroup_def rosterDelete_def)
    have 4: "e \<in> set (rosterOf w g)" using True grp by (simp add: rosterOf_def)
    have "set old' = set old \<union> {h \<in> set (g # gs). e \<in> set (rosterOf w h)}"
      unfolding old' using 2 3 4 by (auto, metis)
    moreover have "set (g # gs) \<subseteq> dom (groups w)"
      using sub grp by (auto simp: updGroup_def split: if_splits)
    ultimately show ?thesis using 1 by blast
  next
    case False
    from Cons.prems grp False
    have "removeFromRosters e gs (old, w) = Inr (old', w')" by simp
    from Cons.IH [OF this]
    have w': "w' = mapGroups (rosterDelete e) (set gs) w"
      and old': "set old' = set old \<union> {h \<in> set gs. e \<in> set (rosterOf w h)}"
      and sub: "set gs \<subseteq> dom (groups w)" by auto
    have 1: "w' = mapGroups (rosterDelete e) (set (g # gs)) w"
      unfolding w' mapGroups_def
      by (auto simp: fun_eq_iff grp rosterDelete_absent [OF False] intro!: arg_cong [where f = "\<lambda>G. w\<lparr>groups := G\<rparr>"])
    have "set old' = set old \<union> {h \<in> set (g # gs). e \<in> set (rosterOf w h)}"
      unfolding old' using False grp by (auto simp: rosterOf_def)
    moreover have "set (g # gs) \<subseteq> dom (groups w)"
      using sub grp by auto
    ultimately show ?thesis using 1 by blast
  qed
qed

lemma removeFromRosters_total:
  "set gs \<subseteq> dom (groups w) \<Longrightarrow> \<exists>r. removeFromRosters e gs (old, w) = Inr r"
proof (induction gs arbitrary: old w)
  case Nil show ?case by simp
next
  case (Cons g gs)
  then obtain grp where grp: "groups w g = Some grp" by auto
  have "set gs \<subseteq> dom (groups (updGroup w g (rosterDelete e grp)))"
    using Cons.prems by (auto simp: updGroup_def)
  from Cons.IH [OF this] Cons.IH [of w] Cons.prems grp show ?case by auto
qed

lemma addToRosters_result:
  "addToRosters e gs (new, w) = Inr (new', w') \<Longrightarrow>
     w' = mapGroups (rosterInsert e) (set gs) w \<and> new' = new @ gs \<and>
     set gs \<subseteq> dom (groups w)"
proof (induction gs arbitrary: new w)
  case Nil
  then show ?case by (simp add: mapGroups_def)
next
  case (Cons g gs)
  from Cons.prems obtain grp where grp: "groups w g = Some grp"
    by (auto split: option.splits)
  let ?w1 = "updGroup w g (rosterInsert e grp)"
  from Cons.prems grp
  have "addToRosters e gs (new @ [g], ?w1) = Inr (new', w')" by simp
  from Cons.IH [OF this]
  have w': "w' = mapGroups (rosterInsert e) (set gs) ?w1"
    and new': "new' = (new @ [g]) @ gs"
    and sub: "set gs \<subseteq> dom (groups ?w1)" by auto
  have 1: "w' = mapGroups (rosterInsert e) (set (g # gs)) w"
    unfolding w' mapGroups_def updGroup_def
    by (auto simp: fun_eq_iff grp rosterInsert_idem)
  moreover have "set (g # gs) \<subseteq> dom (groups w)"
    using sub grp by (auto simp: updGroup_def split: if_splits)
  ultimately show ?case using new' by simp
qed

lemma addToRosters_total:
  "set gs \<subseteq> dom (groups w) \<Longrightarrow> \<exists>r. addToRosters e gs (new, w) = Inr r"
proof (induction gs arbitrary: new w)
  case Nil show ?case by simp
next
  case (Cons g gs)
  then obtain grp where grp: "groups w g = Some grp" by auto
  have "set gs \<subseteq> dom (groups (updGroup w g (rosterInsert e grp)))"
    using Cons.prems by (auto simp: updGroup_def)
  from Cons.IH [OF this] grp show ?case by auto
qed

lemma rosterOf_mapGroups_delete:
  "rosterOf (mapGroups (rosterDelete e) S w) h =
     (if h \<in> S then removeAll e (rosterOf w h) else rosterOf w h)"
  by (simp add: rosterOf_def mapGroups_def rosterDelete_def split: option.splits)

lemma set_rosterOf_mapGroups_insert:
  "set (rosterOf (mapGroups (rosterInsert e) S w) h) =
     (if h \<in> S \<and> h \<in> dom (groups w) then insert e (set (rosterOf w h)) else set (rosterOf w h))"
  by (cases "groups w h") (auto simp: rosterOf_def mapGroups_def rosterInsert_def)

lemma rosterOf_updObj [simp]: "rosterOf (updObj w e f) h = rosterOf w h"
  by (simp add: rosterOf_def updObj_def)

lemma groups_updObj [simp]: "groups (updObj w e f) = groups w"
  by (simp add: updObj_def)

lemma objs_updObj: "objs (updObj w e f) = (objs w)(e := f (objs w e))"
  by (simp add: updObj_def)

lemma objs_updGroup [simp]: "objs (updGroup w g grp) = objs w"
  by (simp add: updGroup_def)

lemma objs_mapGroups [simp]: "objs (mapGroups f S w) = objs w"
  by (simp add: mapGroups_def)

lemma dom_groups_mapGroups [simp]: "dom (groups (mapGroups f S w)) = dom (groups w)"
  by (auto simp: mapGroups_def split: if_splits)

lemma sameButIncoming_refl: "sameButIncoming w w"
  by (simp add: sameButIncoming_def)

lemma sameButIncoming_trans:
  "sameButIncoming w w1 \<Longrightarrow> sameButIncoming w1 w2 \<Longrightarrow> sameButIncoming w w2"
  unfolding sameButIncoming_def
  by (cases w, cases w1, cases w2) simp

lemma sameButIncoming_step:
  "groups w g = Some grp \<Longrightarrow>
     sameButIncoming w (updGroup w g (grp\<lparr>incoming := xs\<rparr>))"
  by (simp add: sameButIncoming_def updGroup_def)

lemma addAsIncoming_fold:
  "sameButIncoming w
     (foldl (\<lambda>w' g. case groups w' g of None \<Rightarrow> w'
               | Some grp \<Rightarrow> if c grp then updGroup w' g (grp\<lparr>incoming := incoming grp @ [e]\<rparr>) else w')
        w gs)"
proof (induction gs arbitrary: w)
  case Nil show ?case by (simp add: sameButIncoming_refl)
next
  case (Cons g gs)
  show ?case
  proof (cases "groups w g")
    case None
    then show ?thesis using Cons.IH [of w] by simp
  next
    case (Some grp)
    show ?thesis
    proof (cases "c grp")
      case True
      have "sameButIncoming w (updGroup w g (grp\<lparr>incoming := incoming grp @ [e]\<rparr>))"
        by (rule sameButIncoming_step [OF Some])
      from sameButIncoming_trans [OF this Cons.IH]
      show ?thesis using Some True by simp
    next
      case False
      then show ?thesis using Some Cons.IH [of w] by simp
    qed
  qed
qed

lemma addAsIncomingToGroup_same: "sameButIncoming w (addAsIncomingToGroup E w e groupId)"
proof (cases "groupId = []")
  case True
  then show ?thesis by (simp add: addAsIncomingToGroup_def Let_def sameButIncoming_refl)
next
  case False
  show ?thesis
    unfolding addAsIncomingToGroup_def Let_def if_P [OF False]
    by (rule addAsIncoming_fold)
qed

lemma sameButIncoming_objs: "sameButIncoming w w' \<Longrightarrow> objs w' = objs w"
  unfolding sameButIncoming_def by (cases w, cases w') simp

lemma sameButIncoming_groups:
  "sameButIncoming w w' \<Longrightarrow>
     map_option (\<lambda>grp. (gentities grp, gplayers grp)) (groups w' h) =
     map_option (\<lambda>grp. (gentities grp, gplayers grp)) (groups w h)"
  unfolding sameButIncoming_def by blast

lemma sameButIncoming_rosterOf: "sameButIncoming w w' \<Longrightarrow> rosterOf w' h = rosterOf w h"
  using sameButIncoming_groups [of w w' h]
  by (cases "groups w h"; cases "groups w' h") (simp_all add: rosterOf_def)

lemma sameButIncoming_dom: "sameButIncoming w w' \<Longrightarrow> dom (groups w') = dom (groups w)"
proof -
  assume a: "sameButIncoming w w'"
  have *: "(groups w' h = None) = (groups w h = None)" for h
    using sameButIncoming_groups [OF a, of h]
    by (cases "groups w h"; cases "groups w' h") simp_all
  show ?thesis unfolding dom_def by (simp add: *)
qed

lemma updGroup_fields [simp]:
  "entities (updGroup w g grp) = entities w"
  "players (updGroup w g grp) = players w"
  "mobs (updGroup w g grp) = mobs w"
  "items (updGroup w g grp) = items w"
  "outgoingQueues (updGroup w g grp) = outgoingQueues w"
  "itemCount (updGroup w g grp) = itemCount w"
  "connections (updGroup w g grp) = connections w"
  "sent (updGroup w g grp) = sent w"
  "positionDraws (updGroup w g grp) = positionDraws w"
  by (simp_all add: updGroup_def)

lemma updObj_fields [simp]:
  "entities (updObj w e f) = entities w"
  "players (updObj w e f) = players w"
  "mobs (updObj w e f) = mobs w"
  "items (updObj w e f) = items w"
  "outgoingQueues (updObj w e f) = outgoingQueues w"
  "itemCount (updObj w e f) = itemCount w"
  "connections (updObj w e f) = connections w"
  "sent (updObj w e f) = sent w"
  "positionDraws (updObj w e f) = positionDraws w"
  by (simp_all add: updObj_def)

lemma mapGroups_fields [simp]:
  "entities (mapGroups f S w) = entities w"
  "players (mapGroups f S w) = players w"
  "mobs (mapGroups f S w) = mobs w"
  "items (mapGroups f S w) = items w"
  "outgoingQueues (mapGroups f S w) = outgoingQueues w"
  "itemCount (mapGroups f S w) = itemCount w"
  "connections (mapGroups f S w) = connections w"
  "sent (mapGroups f S w) = sent w"
  "positionDraws (mapGroups f S w) = positionDraws w"
  by (simp_all add: mapGroups_def)

lemma sameButIncoming_fields:
  assumes "sameButIncoming w w'"
  shows "entities w' = entities w" "players w' = players w" "mobs w' = mobs w"
    "items w' = items w" "outgoingQueues w' = outgoingQueues w" "itemCount w' = itemCount w"
    "connections w' = connections w" "sent w' = sent w" "positionDraws w' = positionDraws w"
  using assms unfolding sameButIncoming_def by (cases w, cases w', simp)+

lemma sameButIncoming_playersOf: "sameButIncoming w w' \<Longrightarrow> playersOf w' h = playersOf w h"
  using sameButIncoming_groups [of w w' h]
  by (cases "groups w h"; cases "groups w' h") (simp_all add: playersOf_def)

lemma playersOf_updObj [simp]: "playersOf (updObj w e f) h = playersOf w h"
  by (simp add: playersOf_def)

lemma playersOf_mapGroups_delete [simp]:
  "playersOf (mapGroups (rosterDelete e) S w) h = playersOf w h"
  by (simp add: playersOf_def mapGroups_def rosterDelete_def split: option.splits)

lemma playersOf_mapGroups_insert [simp]:
  "playersOf (mapGroups (rosterInsert e) S w) h = playersOf w h"
  by (simp add: playersOf_def mapGroups_def rosterInsert_def split: option.splits)

lemma leavePlayers_simps [simp]:
  "objs (leavePlayers w e g) = objs w"
  "rosterOf (leavePlayers w e g) h = rosterOf w h"
  "dom (groups (leavePlayers w e g)) = dom (groups w)"
  "entities (leavePlayers w e g) = entities w"
  "mobs (leavePlayers w e g) = mobs w"
  "items (leavePlayers w e g) = items w"
  "players (leavePlayers w e g) = players w"
  "outgoingQueues (leavePlayers w e g) = outgoingQueues w"
  "itemCount (leavePlayers w e g) = itemCount w"
  "connections (leavePlayers w e g) = connections w"
  "sent (leavePlayers w e g) = sent w"
  "positionDraws (leavePlayers w e g) = positionDraws w"
  by (auto simp: leavePlayers_def rosterOf_def updGroup_def split: option.splits)

lemma removeFromGroups_falsy:
  "\<not> truthy (group (objs w e)) \<Longrightarrow> removeFromGroups E w e = Inr ([], w)"
  by (simp add: removeFromGroups_def truthy_def split: option.splits)

lemma removeFromGroups_result:
  assumes "removeFromGroups E w e = Inr (old, w')"
    and g0: "group (objs w e) = Some g0" "g0 \<noteq> []"
  shows "w' = updObj (mapGroups (rosterDelete e) (set (forEachAdjacentGroup E (Some g0)))
                        (leavePlayers w e g0)) e (\<lambda>x. x\<lparr>group := None\<rparr>)"
    and "set old = {h \<in> set (forEachAdjacentGroup E (Some g0)). e \<in> set (rosterOf w h)}"
    and "set (forEachAdjacentGroup E (Some g0)) \<subseteq> dom (groups w)"
proof -
  from assms obtain w1 old1 w2 where
    w1: "(if cls (objs w e) = PlayerC
          then (case groups w g0 of None \<Rightarrow> Inl TypeError
                | Some grp \<Rightarrow> Inr (updGroup w g0 (grp\<lparr>gplayers := filter (\<lambda>i. i \<noteq> e) (gplayers grp)\<rparr>)))
          else Inr w) = Inr w1"
    and r: "removeFromRosters e (forEachAdjacentGroup E (Some g0)) ([], w1) = Inr (old1, w2)"
    and fin: "old = old1" "w' = updObj w2 e (\<lambda>x. x\<lparr>group := None\<rparr>)"
    by (auto simp: removeFromGroups_def bindE_Inr_iff)
  from w1 have w1': "w1 = leavePlayers w e g0"
    by (auto simp: leavePlayers_def split: if_splits option.splits)
  from removeFromRosters_result [OF r]
  have w2: "w2 = mapGroups (rosterDelete e) (set (forEachAdjacentGroup E (Some g0))) w1"
    and o: "set old1 = {g \<in> set (forEachAdjacentGroup E (Some g0)). e \<in> set (rosterOf w1 g)}"
    and sub: "set (forEachAdjacentGroup E (Some g0)) \<subseteq> dom (groups w1)" by auto
  show "w' = updObj (mapGroups (rosterDelete e) (set (forEachAdjacentGroup E (Some g0)))
                        (leavePlayers w e g0)) e (\<lambda>x. x\<lparr>group := None\<rparr>)"
    by (simp add: fin w2 w1')
  show "set old = {h \<in> set (forEachAdjacentGroup E (Some g0)). e \<in> set (rosterOf w h)}"
    using o by (simp add: fin w1')
  show "set (forEachAdjacentGroup E (Some g0)) \<subseteq> dom (groups w)"
    using sub by (simp add: w1')
qed

lemma joinPlayers_simps [simp]:
  "objs (joinPlayers w e g) = objs w"
  "rosterOf (joinPlayers w e g) h = rosterOf w h"
  "dom (groups (joinPlayers w e g)) = dom (groups w)"
  "entities (joinPlayers w e g) = entities w"
  "mobs (joinPlayers w e g) = mobs w"
  "items (joinPlayers w e g) = items w"
  "players (joinPlayers w e g) = players w"
  "outgoingQueues (joinPlayers w e g) = outgoingQueues w"
  "itemCount (joinPlayers w e g) = itemCount w"
  "connections (joinPlayers w e g) = connections w"
  "sent (joinPlayers w e g) = sent w"
  "positionDraws (joinPlayers w e g) = positionDraws w"
  by (auto simp: joinPlayers_def rosterOf_def updGroup_def split: option.splits)

lemma addToGroup_skip:
  "\<not> (groupId \<noteq> [] \<and> groupId \<in> dom (groups w)) \<Longrightarrow> addToGroup E w e groupId = Inr ([], w)"
  by (auto simp: addToGroup_def)

lemma addToGroup_result:
  assumes "addToGroup E w e groupId = Inr (new, w')"
    and g: "groupId \<noteq> []" "groupId \<in> dom (groups w)"
  shows "w' = joinPlayers (updObj (mapGroups (rosterInsert e)
                 (set (forEachAdjacentGroup E (Some groupId))) w) e (\<lambda>x. x\<lparr>group := Some groupId\<rparr>))
               e groupId"
    and "new = forEachAdjacentGroup E (Some groupId)"
    and "set (forEachAdjacentGroup E (Some groupId)) \<subseteq> dom (groups w)"
proof -
  let ?w2 = "\<lambda>w1. updObj w1 e (\<lambda>x. x\<lparr>group := Some groupId\<rparr>)"
  from assms obtain new1 w1 where
    r: "addToRosters e (forEachAdjacentGroup E (Some groupId)) ([], w) = Inr (new1, w1)"
    and fin: "(if cls (objs (?w2 w1) e) = PlayerC
               then (case groups (?w2 w1) groupId of None \<Rightarrow> Inl TypeError
                     | Some grp \<Rightarrow> Inr (new1, updGroup (?w2 w1) groupId (grp\<lparr>gplayers := gplayers grp @ [e]\<rparr>)))
               else Inr (new1, ?w2 w1)) = Inr (new, w')"
    by (auto simp: addToGroup_def bindE_Inr_iff Let_def)
  from addToRosters_result [OF r]
  have w1: "w1 = mapGroups (rosterInsert e) (set (forEachAdjacentGroup E (Some groupId))) w"
    and n: "new1 = forEachAdjacentGroup E (Some groupId)"
    and sub: "set (forEachAdjacentGroup E (Some groupId)) \<subseteq> dom (groups w)" by auto
  from fin have "new = new1" and "w' = joinPlayers (?w2 w1) e groupId"
    by (auto simp: joinPlayers_def split: if_splits option.splits)
  then show "w' = joinPlayers (updObj (mapGroups (rosterInsert e)
                 (set (forEachAdjacentGroup E (Some groupId))) w) e (\<lambda>x. x\<lparr>group := Some groupId\<rparr>))
               e groupId"
    and "new = forEachAdjacentGroup E (Some groupId)"
    by (simp_all add: w1 n)
  show "set (forEachAdjacentGroup E (Some groupId)) \<subseteq> dom (groups w)" by (rule sub)
qed

lemma hEGM_unchanged:
  "truthy (group (objs w e)) \<Longrightarrow>
   group (objs w e) = Some (getGroupIdFromPosition E (posx (objs w e)) (posy (objs w e))) \<Longrightarrow>
   handleEntityGroupMembership E w e = Inr (False, w)"
  by (simp add: handleEntityGroupMembership_def Let_def)

lemma hEGM_changed:
  assumes "handleEntityGroupMembership E w e = Inr (c, w')"
    and "\<not> (truthy (group (objs w e)) \<and>
           group (objs w e) = Some (getGroupIdFromPosition E (posx (objs w e)) (posy (objs w e))))"
  shows "c \<and> (\<exists>old new w1 w2.
           removeFromGroups E
             (addAsIncomingToGroup E w e (getGroupIdFromPosition E (posx (objs w e)) (posy (objs w e)))) e
             = Inr (old, w1) \<and>
           addToGroup E w1 e (getGroupIdFromPosition E (posx (objs w e)) (posy (objs w e)))
             = Inr (new, w2) \<and>
           w' = (if old \<noteq> []
                 then updObj w2 e (\<lambda>x. x\<lparr>recentlyLeftGroups := difference old new\<rparr>)
                 else w2))"
  using assms
  by (auto simp: handleEntityGroupMembership_def Let_def bindE_Inr_iff split: if_splits)

lemma sameUpToGroup_refl [simp]: "sameUpToGroup x x"
  by (simp add: sameUpToGroup_def)

lemma sameUpToGroup_trans: "sameUpToGroup x y \<Longrightarrow> sameUpToGroup y z \<Longrightarrow> sameUpToGroup x z"
  by (simp add: sameUpToGroup_def)

lemma sameUpToGroup_upd [simp]:
  "sameUpToGroup x (x\<lparr>group := g\<rparr>)" "sameUpToGroup x (x\<lparr>recentlyLeftGroups := r\<rparr>)"
  by (simp_all add: sameUpToGroup_def)

lemma sameUpToGroup_fields:
  assumes "sameUpToGroup x x'"
  shows "cls x' = cls x" "kind x' = kind x" "posx x' = posx x" "posy x' = posy x"
    "hitPoints x' = hitPoints x" "target x' = target x" "hatelist x' = hatelist x"
    "attackers x' = attackers x" "haters x' = haters x" "isStatic x' = isStatic x"
    "isFromChest x' = isFromChest x"
  using assms unfolding sameUpToGroup_def by (cases x, cases x', simp)+

lemma groupFrame_refl: "groupFrame e w w"
  by (simp add: groupFrame_def)

lemma groupFrame_trans:
  assumes "groupFrame e w w1" "groupFrame e w1 w2"
  shows "groupFrame e w w2"
proof -
  from assms(1) have "cls (objs w1 e) = cls (objs w e)"
    by (simp add: groupFrame_def sameUpToGroup_fields)
  with assms show ?thesis
    unfolding groupFrame_def by (auto intro: sameUpToGroup_trans)
qed

lemma groupFrame_sameButIncoming: "sameButIncoming w w' \<Longrightarrow> groupFrame e w w'"
  by (simp add: groupFrame_def sameButIncoming_fields sameButIncoming_objs
        sameButIncoming_dom sameButIncoming_playersOf)

lemma groupFrame_updObj:
  "sameUpToGroup (objs w e) (f (objs w e)) \<Longrightarrow> groupFrame e w (updObj w e f)"
  by (simp add: groupFrame_def objs_updObj)

lemma groupFrame_removeFromGroups:
  assumes "removeFromGroups E w e = Inr (old, w')"
  shows "groupFrame e w w'"
proof (cases "truthy (group (objs w e))")
  case False
  with assms show ?thesis by (simp add: removeFromGroups_falsy groupFrame_refl)
next
  case True
  then obtain g0 where g0: "group (objs w e) = Some g0" "g0 \<noteq> []"
    by (auto simp: truthy_def split: option.splits)
  have pl: "cls (objs w e) \<noteq> PlayerC \<Longrightarrow> leavePlayers w e g0 = w"
    by (simp add: leavePlayers_def)
  show ?thesis
    unfolding removeFromGroups_result(1) [OF assms g0] groupFrame_def
    by (auto simp: objs_updObj pl)
qed

lemma groupFrame_addToGroup:
  assumes "addToGroup E w e groupId = Inr (new, w')"
  shows "groupFrame e w w'"
proof (cases "groupId \<noteq> [] \<and> groupId \<in> dom (groups w)")
  case False
  with assms show ?thesis using addToGroup_skip [OF False, of E e] by (simp add: groupFrame_refl)
next
  case True
  then have g: "groupId \<noteq> []" "groupId \<in> dom (groups w)" by auto
  have pl: "\<And>w. cls (objs w e) \<noteq> PlayerC \<Longrightarrow> joinPlayers w e groupId = w"
    by (simp add: joinPlayers_def)
  show ?thesis
    unfolding addToGroup_result(1) [OF assms g] groupFrame_def
    by (auto simp: objs_updObj pl)
qed

lemma groupFrame_hEGM:
  assumes "handleEntityGroupMembership E w e = Inr (c, w')"
  shows "groupFrame e w w'"
proof (cases "truthy (group (objs w e)) \<and>
           group (objs w e) = Some (getGroupIdFromPosition E (posx (objs w e)) (posy (objs w e)))")
  case True
  then have "handleEntityGroupMembership E w e = Inr (False, w)"
    using hEGM_unchanged [of w e E] by blast
  with assms show ?thesis by (simp add: groupFrame_refl)
next
  case False
  let ?gid = "getGroupIdFromPosition E (posx (objs w e)) (posy (objs w e))"
  from hEGM_changed [OF assms False] obtain old new w1 w2 where
    r: "removeFromGroups E (addAsIncomingToGroup E w e ?gid) e = Inr (old, w1)"
    and a: "addToGroup E w1 e ?gid = Inr (new, w2)"
    and w': "w' = (if old \<noteq> []
                 then updObj w2 e (\<lambda>x. x\<lparr>recentlyLeftGroups := difference old new\<rparr>)
                 else w2)" by blast
  have 1: "groupFrame e w (addAsIncomingToGroup E w e ?gid)"
    by (rule groupFrame_sameButIncoming [OF addAsIncomingToGroup_same])
  have 2: "groupFrame e w w2"
    by (rule groupFrame_trans [OF groupFrame_trans [OF 1 groupFrame_removeFromGroups [OF r]]
               groupFrame_addToGroup [OF a]])
  have 3: "groupFrame e w2 w'"
    unfolding w' by (simp add: groupFrame_refl groupFrame_updObj)
  show ?thesis by (rule groupFrame_trans [OF 2 3])
qed

section \<open>The loot roll\<close>

lemma dropLoop_filter:
  "dropLoop v p drops =
     (case filter (\<lambda>i. v \<le> p + cumulative drops i) [0..<length drops] of
        [] \<Rightarrow> None
      | i # _ \<Rightarrow> Some (fst (drops ! i)))"
proof (induction v p drops rule: dropLoop.induct)
  case (1 v p)
  show ?case by simp
next
  case (2 v p itemName percentage rest)
  let ?ds = "(itemName, percentage) # rest"
  have upt: "[0..<length ?ds] = 0 # map Suc [0..<length rest]"
    by (simp add: upt_conv_Cons map_Suc_upt del: upt_Suc)
  have cum0: "cumulative ?ds 0 = percentage"
    by (simp add: cumulative_def)
  have cumS: "\<And>i. cumulative ?ds (Suc i) = percentage + cumulative rest i"
    by (simp add: cumulative_def)
  show ?case
  proof (cases "v \<le> p + percentage")
    case True
    then show ?thesis unfolding upt by (simp add: cum0)
  next
    case False
    with 2 have IH: "dropLoop v (p + percentage) rest =
       (case filter (\<lambda>i. v \<le> p + percentage + cumulative rest i) [0..<length rest] of
          [] \<Rightarrow> None | i # _ \<Rightarrow> Some (fst (rest ! i)))" by simp
    have flt: "filter (\<lambda>i. v \<le> p + cumulative ?ds i) (map Suc [0..<length rest]) =
               map Suc (filter (\<lambda>i. v \<le> p + percentage + cumulative rest i) [0..<length rest])"
      by (simp add: filter_map o_def cumS add.assoc)
    from False show ?thesis
      unfolding upt by (simp add: cum0 flt IH split: list.splits)
  qed
qed

lemma dropLoop_spec: "dropLoop v 0 drops = firstCumulativeWinner v drops"
  by (simp add: dropLoop_filter firstCumulativeWinner_def)

lemma dropLoop_None_total:
  "\<forall>d \<in> set drops. 0 \<le> snd d \<Longrightarrow> p + sum_list (map snd drops) < v \<Longrightarrow> dropLoop v p drops = None"
proof (induction v p drops rule: dropLoop.induct)
  case (1 v p) show ?case by simp
next
  case (2 v p itemName percentage rest)
  from 2(2) have nn: "0 \<le> sum_list (map snd rest)"
    by (intro sum_list_nonneg) auto
  with 2(2,3) have no: "\<not> v \<le> p + percentage" by simp
  with 2 have "dropLoop v (p + percentage) rest = None"
    by (simp add: add.assoc)
  with no show ?case by simp
qed
lemmas sample_defs = sampleEnv_def lootWorld_def propertyKey_def dropsTable_def
       createItem_def itemId_def addItem_def addEntity_def handleEntityGroupMembership_def
       Let_def truthy_def newItem_def addAsIncomingToGroup_def removeFromGroups_def
       addToGroup_def bindE_def updObj_def updGroup_def includesId_def rosterInsert_def
       rosterDelete_def blank_def

lemma addEntity_kind:
  assumes "addEntity E w e = Inr w'"
  shows "kind (objs w' i) = kind (objs w i)"
proof -
  from assms obtain c where
    h: "handleEntityGroupMembership E (w\<lparr>entities := insert e (entities w)\<rparr>) e = Inr (c, w')"
    by (auto simp: addEntity_def bindE_Inr_iff)
  from groupFrame_hEGM [OF h]
  have "i \<noteq> e \<Longrightarrow> objs w' i = objs w i"
    and "sameUpToGroup (objs w e) (objs w' e)"
    by (simp_all add: groupFrame_def)
  then show ?thesis by (cases "i = e") (auto simp: sameUpToGroup_fields)
qed

lemma getDroppedItem_result:
  assumes "getDroppedItem E w mob v = Inr (item, w')"
  shows "\<exists>drops. Properties E (propertyKey (getKindAsString E (kind (objs w mob)))) = Some drops \<and>
           (case dropLoop v 0 (dropsTable drops) of
              None \<Rightarrow> item = None \<and> w' = w
            | Some itemName \<Rightarrow>
                item = Some (itemId (itemCount w)) \<and>
                kind (objs w' (itemId (itemCount w))) = getKindFromString E itemName)"
proof -
  let ?key = "propertyKey (getKindAsString E (kind (objs w mob)))"
  from assms obtain drops where drops: "Properties E ?key = Some drops"
    by (auto simp: getDroppedItem_def split: option.splits)
  show ?thesis
  proof (cases "dropLoop v 0 (dropsTable drops)")
    case None
    with assms drops show ?thesis
      by (simp add: getDroppedItem_def dropsTable_def)
  next
    case (Some itemName)
    let ?c = "createItem E w (getKindFromString E itemName) (posx (objs w mob)) (posy (objs w mob))"
    from assms drops Some obtain w2 where
      add: "addEntity E (snd ?c) (fst ?c) = Inr w2"
      and item: "item = Some (fst ?c)" and w': "w' = w2\<lparr>items := insert (fst ?c) (items w2)\<rparr>"
      by (auto simp: getDroppedItem_def dropsTable_def addItem_def bindE_Inr_iff
               split: prod.splits)
    have i: "fst ?c = itemId (itemCount w)"
      by (simp add: createItem_def Let_def)
    have k: "kind (objs (snd ?c) (fst ?c)) = getKindFromString E itemName"
      by (simp add: createItem_def Let_def newItem_def)
    from addEntity_kind [OF add, of "fst ?c"] k
    have "kind (objs w' (itemId (itemCount w))) = getKindFromString E itemName"
      by (simp add: w' i)
    with drops Some item i show ?thesis by simp
  qed
qed

text \<open>
  Claim C4. The loot roll is a function of the draw and the drop table: when
  \<^verbatim>\<open>getDroppedItem\<close> returns, the kind of the item it returns is the kind named by the first
  entry, in table order, whose cumulative percentage is at least the draw
  (\<open>firstCumulativeWinner\<close>), and there is no item when no entry qualifies; in particular
  no item drops when the draw exceeds the sum of all (non-negative) percentages.
\<close>

theorem getDroppedItem_first_cumulative:
  assumes "getDroppedItem E w mob v = Inr (item, w')"
    and "Properties E (propertyKey (getKindAsString E (kind (objs w mob)))) = Some drops"
  shows "map_option (\<lambda>i. kind (objs w' i)) item =
           map_option (getKindFromString E) (firstCumulativeWinner v (dropsTable drops)) \<and>
         ((\<forall>d \<in> set (dropsTable drops). 0 \<le> snd d) \<and>
            sum_list (map snd (dropsTable drops)) < v \<longrightarrow> item = None)"
proof -
  from getDroppedItem_result [OF assms(1)] assms(2)
  have r: "(case dropLoop v 0 (dropsTable drops) of
              None \<Rightarrow> item = None \<and> w' = w
            | Some itemName \<Rightarrow>
                item = Some (itemId (itemCount w)) \<and>
                kind (objs w' (itemId (itemCount w))) = getKindFromString E itemName)"
    by auto
  have 1: "map_option (\<lambda>i. kind (objs w' i)) item =
           map_option (getKindFromString E) (firstCumulativeWinner v (dropsTable drops))"
    using r unfolding dropLoop_spec [symmetric]
    by (cases "dropLoop v 0 (dropsTable drops)") auto
  have 2: "item = None"
    if "\<forall>d \<in> set (dropsTable drops). 0 \<le> snd d" "sum_list (map snd (dropsTable drops)) < v"
  proof -
    from that have "dropLoop v 0 (dropsTable drops) = None"
      by (intro dropLoop_None_total) auto
    with r show ?thesis by simp
  qed
  from 1 2 show ?thesis by blast
qed

theorem getDroppedItem_first_cumulative_witness:
  "(\<exists>item w'. getDroppedItem sampleEnv lootWorld 1 30 = Inr (item, w') \<and>
      map_option (\<lambda>i. kind (objs w' i)) item = Some (getKindFromString sampleEnv ''A'') \<and>
      firstCumulativeWinner 30 (dropsTable (Some [(''A'', 30), (''B'', 20)])) = Some ''A'') \<and>
   getDroppedItem sampleEnv lootWorld 1 99 = Inr (None, lootWorld) \<and>
   map_option (\<lambda>i. kind (objs lootWorld i)) None =
     map_option (getKindFromString sampleEnv)
       (firstCumulativeWinner 99 (dropsTable (Some [(''A'', 30), (''B'', 20)]))) \<and>
   list_all (\<lambda>d. 0 \<le> snd d) (dropsTable (Some [(''A'', 30), (''B'', 20::int)])) \<and>
   sum_list (map snd (dropsTable (Some [(''A'', 30), (''B'', 20::int)]))) < 99"
proof -
  have e: "getDroppedItem sampleEnv lootWorld 1 99 = Inr (None, lootWorld)"
    by (simp add: getDroppedItem_def sampleEnv_def lootWorld_def propertyKey_def blank_def
          dropsTable_def)
  have p: "Properties sampleEnv (propertyKey (getKindAsString sampleEnv (kind (objs lootWorld 1))))
             = Some (Some [(''A'', 30), (''B'', 20)])"
    by (simp add: sampleEnv_def lootWorld_def propertyKey_def blank_def)
  have "\<exists>item w'. getDroppedItem sampleEnv lootWorld 1 30 = Inr (item, w')"
    by (simp add: getDroppedItem_def sample_defs)
  then obtain item w' where e30: "getDroppedItem sampleEnv lootWorld 1 30 = Inr (item, w')"
    by blast
  have f30: "firstCumulativeWinner 30 (dropsTable (Some [(''A'', 30), (''B'', 20)])) = Some ''A''"
    by (simp add: firstCumulativeWinner_def dropsTable_def cumulative_def upt_rec)
  from getDroppedItem_first_cumulative [OF e30 p] f30
  have "map_option (\<lambda>i. kind (objs w' i)) item = Some (getKindFromString sampleEnv ''A'')"
    by simp
  with e30 f30 getDroppedItem_first_cumulative [OF e p] e show ?thesis
    by (simp add: dropsTable_def)
qed

text \<open>
  Claim C3, as amended. For the table \<open>{A: 30, B: 20}\<close> (the \<^verbatim>\<open>drops\<close> of the kind of mob 1 in
  \<open>lootWorld\<close>) the draws 0, 29, 30, 49, 50, 99 make \<^verbatim>\<open>getDroppedItem\<close> yield
  A, A, A, B, B and no item: the comparison is \<^verbatim>\<open>v <= p\<close>, so the draws 30 and 50 still
  win the entry whose cumulative sum they equal.
\<close>

theorem loot_draws_table:
  "map (\<lambda>v. dropKind (getDroppedItem sampleEnv lootWorld 1 v)) [0, 29, 30, 49, 50, 99] =
     [Inr (Some (getKindFromString sampleEnv ''A'')), Inr (Some (getKindFromString sampleEnv ''A'')),
      Inr (Some (getKindFromString sampleEnv ''A'')), Inr (Some (getKindFromString sampleEnv ''B'')),
      Inr (Some (getKindFromString sampleEnv ''B'')), Inr None]"
  by (simp add: dropKind_def getDroppedItem_def sample_defs)

text \<open>The draw 30 does not yield item B, as claim C3 states it.\<close>

theorem loot_draw_30_counterexample:
  "dropKind (getDroppedItem sampleEnv lootWorld 1 30) \<noteq> Inr (Some (getKindFromString sampleEnv ''B''))"
  by (simp add: dropKind_def getDroppedItem_def sample_defs)

text \<open>
  Claim C9, as amended. A kind whose \<^verbatim>\<open>Properties\<close> entry has no \<^verbatim>\<open>drops\<close> table, or an empty
  one, drops no item and raises nothing, whatever the draw. A kind without a \<^verbatim>\<open>Properties\<close>
  entry (an unknown kind name reads \<^verbatim>\<open>Properties[undefined]\<close>) makes \<^verbatim>\<open>getDroppedItem\<close>
  raise a TypeError.
\<close>

theorem getDroppedItem_configuration_gaps:
  "((Properties E (propertyKey (getKindAsString E (kind (objs w mob)))) = Some None \<or>
     Properties E (propertyKey (getKindAsString E (kind (objs w mob)))) = Some (Some []))
      \<longrightarrow> getDroppedItem E w mob v = Inr (None, w)) \<and>
   (Properties E (propertyKey (getKindAsString E (kind (objs w mob)))) = None
      \<longrightarrow> getDroppedItem E w mob v = Inl TypeError)"
  by (auto simp: getDroppedItem_def dropsTable_def)

theorem getDroppedItem_configuration_gaps_witness:
  "Properties sampleEnv (propertyKey (getKindAsString sampleEnv (kind (objs lootWorld 3)))) = Some None \<and>
   getDroppedItem sampleEnv lootWorld 3 10 = Inr (None, lootWorld) \<and>
   Properties sampleEnv (propertyKey (getKindAsString sampleEnv (kind (objs lootWorld 2)))) = None \<and>
   getDroppedItem sampleEnv lootWorld 2 10 = Inl TypeError"
proof -
  have a: "Properties sampleEnv (propertyKey (getKindAsString sampleEnv (kind (objs lootWorld 3)))) = Some None"
    by (simp add: sampleEnv_def lootWorld_def propertyKey_def blank_def)
  have b: "Properties sampleEnv (propertyKey (getKindAsString sampleEnv (kind (objs lootWorld 2)))) = None"
    by (simp add: sampleEnv_def lootWorld_def propertyKey_def blank_def)
  from getDroppedItem_configuration_gaps [of sampleEnv lootWorld 3 10] a
  have 1: "getDroppedItem sampleEnv lootWorld 3 10 = Inr (None, lootWorld)" by simp
  from getDroppedItem_configuration_gaps [of sampleEnv lootWorld 2 10] b
  have 2: "getDroppedItem sampleEnv lootWorld 2 10 = Inl TypeError" by simp
  from a b 1 2 show ?thesis by simp
qed

text \<open>Mob 2 of \<open>lootWorld\<close> has a kind unknown to \<^verbatim>\<open>getKindAsString\<close>: the roll raises.\<close>

theorem getDroppedItem_unknown_kind_counterexample:
  "getKindAsString sampleEnv (kind (objs lootWorld 2)) = None \<and>
   getDroppedItem sampleEnv lootWorld 2 10 = Inl TypeError"
  by (simp add: getDroppedItem_def sampleEnv_def lootWorld_def propertyKey_def blank_def)

section \<open>The outbound queues\<close>

lemma pushToPlayer_None [simp]: "pushToPlayer w None m = w"
  by (simp add: pushToPlayer_def)

lemma pushToPlayer_Some:
  "pushToPlayer w (Some p) m = w\<lparr>outgoingQueues := map (appendTo p [m]) (outgoingQueues w)\<rparr>"
proof (cases "p \<in> fst ` set (outgoingQueues w)")
  case True
  then show ?thesis
    by (simp add: pushToPlayer_def appendTo_def case_prod_unfold)
next
  case False
  then have "map (appendTo p [m]) (outgoingQueues w) = outgoingQueues w"
    by (intro map_idI) (auto simp: appendTo_def intro: rev_image_eqI)
  with False show ?thesis by (simp add: pushToPlayer_def)
qed

lemma map_of_appendTo:
  "map_of (map (appendTo p ms) qs) k =
     (if k = p then map_option (\<lambda>q. q @ ms) (map_of qs p) else map_of qs k)"
  by (induction qs) (auto simp: appendTo_def)

lemma queueOf_pushToPlayer:
  "queueOf (pushToPlayer w (Some p) m) k =
     (if k = p then map_option (\<lambda>q. q @ [m]) (queueOf w p) else queueOf w k)"
  by (simp add: queueOf_def pushToPlayer_Some map_of_appendTo)

lemma pushToPlayer_frame: "pushToPlayer w x m = w\<lparr>outgoingQueues := outgoingQueues (pushToPlayer w x m)\<rparr>"
  by (cases x) (simp_all add: pushToPlayer_Some)

lemma pushSeq_queues:
  "outgoingQueues (pushSeq w ps) =
     map (\<lambda>kq. (fst kq, snd kq @ messagesFor (fst kq) ps)) (outgoingQueues w)"
proof (induction ps arbitrary: w)
  case Nil
  show ?case by (simp add: pushSeq_def messagesFor_def)
next
  case (Cons pm ps)
  have step: "pushSeq w (pm # ps) = pushSeq (pushToPlayer w (fst pm) (snd pm)) ps"
    by (simp add: pushSeq_def)
  show ?case
  proof (cases "fst pm")
    case None
    then show ?thesis
      unfolding step Cons.IH by (simp add: messagesFor_def)
  next
    case (Some p)
    then show ?thesis
      unfolding step Cons.IH
      by (simp add: pushToPlayer_Some messagesFor_def appendTo_def)
  qed
qed

lemma pushSeq_frame: "pushSeq w ps = w\<lparr>outgoingQueues := outgoingQueues (pushSeq w ps)\<rparr>"
proof (induction ps arbitrary: w)
  case Nil show ?case by (simp add: pushSeq_def)
next
  case (Cons pm ps)
  have step: "pushSeq w (pm # ps) = pushSeq (pushToPlayer w (fst pm) (snd pm)) ps"
    by (simp add: pushSeq_def)
  show ?case
    unfolding step
    by (subst Cons.IH, subst pushToPlayer_frame) simp
qed

lemma flushEntries_result:
  "flushEntries C qs = Inr (qs', out) \<Longrightarrow>
     qs' = map (\<lambda>kq. (fst kq, [])) qs \<and> out = filter (\<lambda>kq. snd kq \<noteq> []) qs"
proof (induction qs arbitrary: qs' out)
  case Nil
  then show ?case by simp
next
  case (Cons kq qs)
  obtain i q where kq: "kq = (i, q)" by (cases kq)
  from Cons.prems obtain qs1 out1 where r: "flushEntries C qs = Inr (qs1, out1)"
    by (auto simp: kq bindE_def split: if_splits sum.splits)
  from Cons.IH [OF r] Cons.prems r show ?case
    by (auto simp: kq bindE_def split: if_splits)
qed

lemma flushEntries_total:
  "\<forall>kq \<in> set qs. snd kq \<noteq> [] \<longrightarrow> fst kq \<in> C \<Longrightarrow> \<exists>r. flushEntries C qs = Inr r"
proof (induction qs)
  case Nil show ?case by simp
next
  case (Cons kq qs)
  obtain i q where kq: "kq = (i, q)" by (cases kq)
  from Cons obtain r where "flushEntries C qs = Inr r" by auto
  with Cons.prems show ?case by (cases r) (auto simp: kq bindE_def)
qed

lemma processQueues_result:
  assumes "processQueues w = Inr w'"
  shows "w' = w\<lparr>outgoingQueues := map (\<lambda>kq. (fst kq, [])) (outgoingQueues w),
               sent := sent w @ filter (\<lambda>kq. snd kq \<noteq> []) (outgoingQueues w)\<rparr>"
proof -
  from assms obtain qs out where f: "flushEntries (connections w) (outgoingQueues w) = Inr (qs, out)"
    and w': "w' = w\<lparr>outgoingQueues := qs, sent := sent w @ out\<rparr>"
    by (auto simp: processQueues_def bindE_def split: sum.splits)
  from flushEntries_result [OF f] w' show ?thesis by simp
qed

lemma filter_key_distinct:
  "distinct (map fst qs) \<Longrightarrow> map_of qs p = Some q \<Longrightarrow> filter (\<lambda>kq. fst kq = p) qs = [(p, q)]"
proof (induction qs)
  case Nil then show ?case by simp
next
  case (Cons kq qs)
  show ?case
  proof (cases "fst kq = p")
    case True
    with Cons.prems have "filter (\<lambda>kq. fst kq = p) qs = []"
      by (auto simp: filter_empty_conv intro: rev_image_eqI)
    with True Cons.prems show ?thesis by (cases kq) auto
  next
    case False
    with Cons show ?thesis by (cases kq) auto
  qed
qed

lemma map_of_const_queue:
  "p \<in> fst ` set qs \<Longrightarrow> map_of (map (\<lambda>kq. (fst kq, f (fst kq))) qs) p = Some (f p)"
  by (induction qs) auto

text \<open>
  Claim C8. After a flush, let messages be pushed with \<^verbatim>\<open>pushToPlayer\<close> (to any players,
  in any order; \<open>messagesFor p ps\<close> are those pushed to player \<open>p\<close>, in push order). The next
  \<^verbatim>\<open>processQueues\<close> returns and hands the transport, for \<open>p\<close>, exactly one batch holding
  exactly these messages in push order, and no batch at all when there are none; the
  queue of \<open>p\<close> is empty afterwards. (Every queued player has a connection, and the keys of
  \<^verbatim>\<open>outgoingQueues\<close> are distinct, as the keys of an object are.)
\<close>

theorem flush_delivers_one_batch:
  assumes flush0: "processQueues w = Inr w0"
    and key: "p \<in> fst ` set (outgoingQueues w)"
    and dist: "distinct (map fst (outgoingQueues w))"
    and conn: "fst ` set (outgoingQueues w) \<subseteq> connections w"
  shows "\<exists>w2 out. processQueues (pushSeq w0 ps) = Inr w2 \<and>
           sent w2 = sent w0 @ out \<and>
           filter (\<lambda>b. fst b = p) out =
             (if messagesFor p ps = [] then [] else [(p, messagesFor p ps)]) \<and>
           queueOf w2 p = Some []"
proof -
  let ?qs = "outgoingQueues w"
  let ?w1 = "pushSeq w0 ps"
  let ?Q1 = "map (\<lambda>kq. (fst kq, messagesFor (fst kq) ps)) ?qs"
  have q0: "outgoingQueues w0 = map (\<lambda>kq. (fst kq, [])) ?qs"
    and c0: "connections w0 = connections w"
    by (simp_all add: processQueues_result [OF flush0])
  have q1: "outgoingQueues ?w1 = ?Q1"
    by (simp add: pushSeq_queues q0 o_def)
  have f1: "connections ?w1 = connections w" "sent ?w1 = sent w0"
    by (subst pushSeq_frame, simp add: c0)+
  have "\<forall>kq \<in> set ?Q1. snd kq \<noteq> [] \<longrightarrow> fst kq \<in> connections w"
    using conn by auto
  from flushEntries_total [OF this] obtain r where
    "flushEntries (connections ?w1) (outgoingQueues ?w1) = Inr r"
    by (auto simp: q1 f1)
  then obtain w2 where p2: "processQueues ?w1 = Inr w2"
    by (cases r) (simp add: processQueues_def bindE_def)
  note r2 = processQueues_result [OF p2]
  have s2: "sent w2 = sent w0 @ filter (\<lambda>kq. snd kq \<noteq> []) ?Q1"
    by (subst r2) (simp add: q1 f1)
  have m1: "map_of ?Q1 p = Some (messagesFor p ps)"
    by (rule map_of_const_queue [OF key])
  have d1: "distinct (map fst ?Q1)"
    using dist by (simp add: o_def)
  have "filter (\<lambda>b. fst b = p) (filter (\<lambda>kq. snd kq \<noteq> []) ?Q1) =
        filter (\<lambda>kq. snd kq \<noteq> []) (filter (\<lambda>b. fst b = p) ?Q1)"
    by (simp add: conj_commute)
  also have "\<dots> = filter (\<lambda>kq. snd kq \<noteq> []) [(p, messagesFor p ps)]"
    by (simp only: filter_key_distinct [OF d1 m1])
  finally have o: "filter (\<lambda>b. fst b = p) (filter (\<lambda>kq. snd kq \<noteq> []) ?Q1) =
      (if messagesFor p ps = [] then [] else [(p, messagesFor p ps)])"
    by simp
  have "outgoingQueues w2 = map (\<lambda>kq. (fst kq, [])) ?Q1"
    by (subst r2) (simp add: q1)
  then have e2: "queueOf w2 p = Some []"
    using key by (simp add: queueOf_def o_def map_of_const_queue [where f = "\<lambda>_. []"])
  from p2 s2 o e2 show ?thesis by blast
qed

theorem flush_delivers_one_batch_witness:
  "processQueues queueWorld = Inr flushedQueueWorld \<and>
   1 \<in> fst ` set (outgoingQueues queueWorld) \<and>
   distinct (map fst (outgoingQueues queueWorld)) \<and>
   fst ` set (outgoingQueues queueWorld) \<subseteq> connections queueWorld \<and>
   messagesFor 1 [(Some 1, Spawn 7), (Some 2, Move 7), (Some 1, Kill 7)] = [Spawn 7, Kill 7] \<and>
   (\<exists>w2 out. processQueues (pushSeq flushedQueueWorld
                      [(Some 1, Spawn 7), (Some 2, Move 7), (Some 1, Kill 7)]) = Inr w2 \<and>
      sent w2 = sent flushedQueueWorld @ out \<and>
      filter (\<lambda>b. fst b = 1) out = [(1, [Spawn 7, Kill 7])] \<and>
      queueOf w2 1 = Some [])"
proof -
  have a: "processQueues queueWorld = Inr flushedQueueWorld"
    by (simp add: processQueues_def queueWorld_def flushedQueueWorld_def bindE_def)
  have b: "1 \<in> fst ` set (outgoingQueues queueWorld)"
    by (simp add: queueWorld_def)
  have c: "distinct (map fst (outgoingQueues queueWorld))"
    by (simp add: queueWorld_def)
  have d: "fst ` set (outgoingQueues queueWorld) \<subseteq> connections queueWorld"
    by (simp add: queueWorld_def)
  have m: "messagesFor 1 [(Some 1, Spawn 7), (Some 2, Move 7), (Some 1, Kill 7)] = [Spawn 7, Kill 7]"
    by (simp add: messagesFor_def)
  from flush_delivers_one_batch [OF a b c d, of "[(Some 1, Spawn 7), (Some 2, Move 7), (Some 1, Kill 7)]"]
    a b c d m
  show ?thesis by simp
qed

text \<open>
  Claim C10. For a player whose group is in the group table, \<^verbatim>\<open>pushRelevantEntityListTo\<close>
  pushes to that player one entity-list message; its ids are those of the roster of the
  player's own group without the player's own id (also when none is left), it is appended
  to the player's queue, and no other queue changes.
\<close>

theorem pushRelevantEntityListTo_sends_list:
  assumes "group (objs w player) = Some g" and "groups w g = Some grp"
  shows "\<exists>ids. set ids = set (rosterOf w g) - {player} \<and>
           pushRelevantEntityListTo w player = pushToPlayer w (Some player) (EntityList ids) \<and>
           (\<forall>q. queueOf w player = Some q \<longrightarrow>
                queueOf (pushRelevantEntityListTo w player) player = Some (q @ [EntityList ids])) \<and>
           (\<forall>k. k \<noteq> player \<longrightarrow>
                queueOf (pushRelevantEntityListTo w player) k = queueOf w k)"
proof -
  let ?ids = "filter (\<lambda>i. i \<noteq> player) (gentities grp)"
  have 1: "set ?ids = set (rosterOf w g) - {player}"
    using assms by (auto simp: rosterOf_def)
  have 2: "pushRelevantEntityListTo w player = pushToPlayer w (Some player) (EntityList ?ids)"
    using assms by (simp add: pushRelevantEntityListTo_def)
  have 3: "\<forall>q. queueOf w player = Some q \<longrightarrow>
             queueOf (pushRelevantEntityListTo w player) player = Some (q @ [EntityList ?ids])"
    by (simp add: 2 queueOf_pushToPlayer)
  have 4: "\<forall>k. k \<noteq> player \<longrightarrow> queueOf (pushRelevantEntityListTo w player) k = queueOf w k"
    by (simp add: 2 queueOf_pushToPlayer)
  from 1 2 3 4 show ?thesis by blast
qed

theorem pushRelevantEntityListTo_sends_list_witness:
  "group (objs listWorld 3) = Some ''0-0'' \<and>
   rosterOf listWorld ''0-0'' = [3, 5, 6] \<and>
   queueOf listWorld 3 = Some [Population 2] \<and>
   (\<exists>ids. set ids = {5, 6} \<and>
      queueOf (pushRelevantEntityListTo listWorld 3) 3 = Some [Population 2, EntityList ids]) \<and>
   group (objs listWorld 2) = Some ''1-0'' \<and>
   rosterOf listWorld ''1-0'' = [2] \<and>
   queueOf listWorld 2 = Some [] \<and>
   queueOf (pushRelevantEntityListTo listWorld 2) 2 = Some [EntityList []]"
proof -
  have g1: "group (objs listWorld 3) = Some ''0-0''"
    and g2: "group (objs listWorld 2) = Some ''1-0''"
    by (simp_all add: listWorld_def blank_def)
  have t1: "groups listWorld ''0-0'' = Some \<lparr>gentities = [3, 5, 6], gplayers = [3], incoming = []\<rparr>"
    and t2: "groups listWorld ''1-0'' = Some \<lparr>gentities = [2], gplayers = [2], incoming = []\<rparr>"
    by (simp_all add: listWorld_def)
  have r1: "rosterOf listWorld ''0-0'' = [3, 5, 6]" and r2: "rosterOf listWorld ''1-0'' = [2]"
    by (simp_all add: rosterOf_def t1 t2)
  have q1: "queueOf listWorld 3 = Some [Population 2]" and q2: "queueOf listWorld 2 = Some []"
    by (simp_all add: queueOf_def listWorld_def)
  from pushRelevantEntityListTo_sends_list [OF g1 t1] q1 r1
  have e1: "\<exists>ids. set ids = {5, 6} \<and>
      queueOf (pushRelevantEntityListTo listWorld 3) 3 = Some [Population 2, EntityList ids]"
    by auto
  from pushRelevantEntityListTo_sends_list [OF g2 t2] q2 r2
  have e2: "queueOf (pushRelevantEntityListTo listWorld 2) 2 = Some [EntityList []]"
    by auto
  from g1 g2 r1 r2 q1 q2 e1 e2 show ?thesis by simp
qed

section \<open>Membership updates\<close>

lemma removeFromGroups_total:
  assumes "\<And>g. group (objs w e) = Some g \<Longrightarrow> g \<noteq> [] \<Longrightarrow>
             g \<in> dom (groups w) \<and> set (forEachAdjacentGroup E (Some g)) \<subseteq> dom (groups w)"
  shows "\<exists>r. removeFromGroups E w e = Inr r"
proof (cases "truthy (group (objs w e))")
  case False
  then show ?thesis by (simp add: removeFromGroups_falsy)
next
  case True
  then obtain g0 where g0: "group (objs w e) = Some g0" "g0 \<noteq> []"
    by (auto simp: truthy_def split: option.splits)
  from assms [OF g0] obtain grp where grp: "groups w g0 = Some grp"
    and sub: "set (forEachAdjacentGroup E (Some g0)) \<subseteq> dom (groups w)" by auto
  let ?w1 = "leavePlayers w e g0"
  have "set (forEachAdjacentGroup E (Some g0)) \<subseteq> dom (groups ?w1)" using sub by simp
  from removeFromRosters_total [OF this, of e "[]"] obtain r where
    r: "removeFromRosters e (forEachAdjacentGroup E (Some g0)) ([], ?w1) = Inr r" by blast
  show ?thesis
    using g0 grp r
    by (cases r) (auto simp: removeFromGroups_def bindE_def leavePlayers_def)
qed

lemma addToGroup_total:
  assumes "groupId \<noteq> [] \<Longrightarrow> groupId \<in> dom (groups w) \<Longrightarrow>
             set (forEachAdjacentGroup E (Some groupId)) \<subseteq> dom (groups w)"
  shows "\<exists>r. addToGroup E w e groupId = Inr r"
proof (cases "groupId \<noteq> [] \<and> groupId \<in> dom (groups w)")
  case False
  then show ?thesis using addToGroup_skip [OF False] by simp
next
  case True
  with assms have sub: "set (forEachAdjacentGroup E (Some groupId)) \<subseteq> dom (groups w)" by simp
  from addToRosters_total [OF sub, of e "[]"] obtain new w1 where
    r: "addToRosters e (forEachAdjacentGroup E (Some groupId)) ([], w) = Inr (new, w1)" by auto
  from addToRosters_result [OF r] have "dom (groups w1) = dom (groups w)" by simp
  with True obtain grp where "groups w1 groupId = Some grp" by auto
  with True r show ?thesis
    by (auto simp: addToGroup_def bindE_def Let_def)
qed

lemma hEGM_total:
  assumes closed: "adjacencyClosed E w"
    and cur: "\<And>g. group (objs w e) = Some g \<Longrightarrow> g \<noteq> [] \<Longrightarrow> g \<in> dom (groups w)"
  shows "\<exists>c w'. handleEntityGroupMembership E w e = Inr (c, w')"
proof -
  let ?gid = "getGroupIdFromPosition E (posx (objs w e)) (posy (objs w e))"
  let ?wa = "addAsIncomingToGroup E w e ?gid"
  have sa: "sameButIncoming w ?wa" by (rule addAsIncomingToGroup_same)
  have da: "dom (groups ?wa) = dom (groups w)" by (rule sameButIncoming_dom [OF sa])
  have oa: "objs ?wa = objs w" by (rule sameButIncoming_objs [OF sa])
  have "\<exists>r. removeFromGroups E ?wa e = Inr r"
  proof (rule removeFromGroups_total)
    fix g assume "group (objs ?wa e) = Some g" "g \<noteq> []"
    with cur have "g \<in> dom (groups w)" by (simp add: oa)
    with closed show "g \<in> dom (groups ?wa) \<and> set (forEachAdjacentGroup E (Some g)) \<subseteq> dom (groups ?wa)"
      by (simp add: da adjacencyClosed_def)
  qed
  then obtain old w1 where r: "removeFromGroups E ?wa e = Inr (old, w1)" by auto
  from groupFrame_removeFromGroups [OF r] have d1: "dom (groups w1) = dom (groups w)"
    by (simp add: groupFrame_def da)
  have "\<exists>r. addToGroup E w1 e ?gid = Inr r"
    using closed by (intro addToGroup_total) (simp add: d1 adjacencyClosed_def)
  then obtain new w2 where a: "addToGroup E w1 e ?gid = Inr (new, w2)" by auto
  from r a show ?thesis
    by (auto simp: handleEntityGroupMembership_def Let_def bindE_def)
qed

lemma hEGM_rosters:
  assumes h: "handleEntityGroupMembership E w e = Inr (True, w')"
  shows "group (objs w' e) =
           (if computedGroup E w e \<noteq> [] \<and> computedGroup E w e \<in> dom (groups w)
            then Some (computedGroup E w e)
            else if truthy (group (objs w e)) then None else group (objs w e))"
    and "set (rosterOf w' h) =
           (if computedGroup E w e \<noteq> [] \<and> computedGroup E w e \<in> dom (groups w) \<and>
               h \<in> set (forEachAdjacentGroup E (Some (computedGroup E w e)))
            then insert e else id)
           (if truthy (group (objs w e)) \<and> h \<in> set (forEachAdjacentGroup E (group (objs w e)))
            then set (rosterOf w h) - {e} else set (rosterOf w h))"
proof -
  let ?gid = "getGroupIdFromPosition E (posx (objs w e)) (posy (objs w e))"
  let ?wa = "addAsIncomingToGroup E w e ?gid"
  have gid: "computedGroup E w e = ?gid" by (simp add: computedGroup_def)
  have ch: "\<not> (truthy (group (objs w e)) \<and> group (objs w e) = Some ?gid)"
    using h hEGM_unchanged [of w e E] by auto
  from hEGM_changed [OF h ch] obtain old new w1 w2 where
    r: "removeFromGroups E ?wa e = Inr (old, w1)"
    and a: "addToGroup E w1 e ?gid = Inr (new, w2)"
    and w': "w' = (if old \<noteq> []
                 then updObj w2 e (\<lambda>x. x\<lparr>recentlyLeftGroups := difference old new\<rparr>)
                 else w2)" by blast
  have sa: "sameButIncoming w ?wa" by (rule addAsIncomingToGroup_same)
  have oa: "objs ?wa = objs w" by (rule sameButIncoming_objs [OF sa])
  have da: "dom (groups ?wa) = dom (groups w)" by (rule sameButIncoming_dom [OF sa])
  have ra: "\<And>k. rosterOf ?wa k = rosterOf w k" by (rule sameButIncoming_rosterOf [OF sa])
  have r1: "set (rosterOf w1 h) =
      (if truthy (group (objs w e)) \<and> h \<in> set (forEachAdjacentGroup E (group (objs w e)))
       then set (rosterOf w h) - {e} else set (rosterOf w h))"
  proof (cases "truthy (group (objs w e))")
    case False
    then have "\<not> truthy (group (objs ?wa e))" by (simp add: oa)
    from removeFromGroups_falsy [OF this, of E] r False show ?thesis by (simp add: ra)
  next
    case True
    then obtain g0 where g0: "group (objs w e) = Some g0" "g0 \<noteq> []"
      by (auto simp: truthy_def split: option.splits)
    then have g0a: "group (objs ?wa e) = Some g0" by (simp add: oa)
    show ?thesis
      unfolding removeFromGroups_result(1) [OF r g0a g0(2)]
      using True by (simp add: g0 rosterOf_mapGroups_delete ra)
  qed
  from groupFrame_removeFromGroups [OF r] have d1: "dom (groups w1) = dom (groups w)"
    by (simp add: groupFrame_def da)
  have g2: "group (objs w2 e) = (if ?gid \<noteq> [] \<and> ?gid \<in> dom (groups w) then Some ?gid
              else if truthy (group (objs w e)) then None else group (objs w e))"
   and r2: "set (rosterOf w2 h) =
      (if ?gid \<noteq> [] \<and> ?gid \<in> dom (groups w) \<and> h \<in> set (forEachAdjacentGroup E (Some ?gid))
       then insert e else id) (set (rosterOf w1 h))"
  proof -
    show "group (objs w2 e) = (if ?gid \<noteq> [] \<and> ?gid \<in> dom (groups w) then Some ?gid
              else if truthy (group (objs w e)) then None else group (objs w e))"
    proof (cases "?gid \<noteq> [] \<and> ?gid \<in> dom (groups w)")
      case True
      then have v: "?gid \<noteq> []" "?gid \<in> dom (groups w1)" by (simp_all add: d1)
      show ?thesis
        unfolding addToGroup_result(1) [OF a v] using True by (simp add: objs_updObj)
    next
      case False
      then have "\<not> (?gid \<noteq> [] \<and> ?gid \<in> dom (groups w1))" by (simp add: d1)
      from addToGroup_skip [OF this, of E e] a have "w2 = w1" by simp
      moreover have "group (objs w1 e) = (if truthy (group (objs w e)) then None else group (objs w e))"
      proof (cases "truthy (group (objs w e))")
        case True
        then obtain g0 where g0: "group (objs ?wa e) = Some g0" "g0 \<noteq> []"
          by (auto simp: truthy_def oa split: option.splits)
        show ?thesis
          unfolding removeFromGroups_result(1) [OF r g0] using True by (simp add: objs_updObj)
      next
        case F: False
        then have nt: "\<not> truthy (group (objs ?wa e))" by (simp add: oa)
        from removeFromGroups_falsy [OF nt, of E] r have "w1 = ?wa" by simp
        then show ?thesis using F by (simp add: oa)
      qed
      ultimately show ?thesis using False by auto
    qed
    show "set (rosterOf w2 h) =
      (if ?gid \<noteq> [] \<and> ?gid \<in> dom (groups w) \<and> h \<in> set (forEachAdjacentGroup E (Some ?gid))
       then insert e else id) (set (rosterOf w1 h))"
    proof (cases "?gid \<noteq> [] \<and> ?gid \<in> dom (groups w)")
      case True
      then have v: "?gid \<noteq> []" "?gid \<in> dom (groups w1)" by (simp_all add: d1)
      from addToGroup_result(3) [OF a v]
      have sub: "set (forEachAdjacentGroup E (Some ?gid)) \<subseteq> dom (groups w1)" .
      show ?thesis
        unfolding addToGroup_result(1) [OF a v]
        using True sub by (auto simp: set_rosterOf_mapGroups_insert)
    next
      case False
      then have "\<not> (?gid \<noteq> [] \<and> ?gid \<in> dom (groups w1))" by (simp add: d1)
      from addToGroup_skip [OF this, of E e] a have "w2 = w1" by simp
      with False show ?thesis by auto
    qed
  qed
  have o': "group (objs w' e) = group (objs w2 e)" "rosterOf w' h = rosterOf w2 h"
    by (simp_all add: w' objs_updObj)
  show "group (objs w' e) =
           (if computedGroup E w e \<noteq> [] \<and> computedGroup E w e \<in> dom (groups w)
            then Some (computedGroup E w e)
            else if truthy (group (objs w e)) then None else group (objs w e))"
    by (simp add: o' g2 gid)
  show "set (rosterOf w' h) =
           (if computedGroup E w e \<noteq> [] \<and> computedGroup E w e \<in> dom (groups w) \<and>
               h \<in> set (forEachAdjacentGroup E (Some (computedGroup E w e)))
            then insert e else id)
           (if truthy (group (objs w e)) \<and> h \<in> set (forEachAdjacentGroup E (group (objs w e)))
            then set (rosterOf w h) - {e} else set (rosterOf w h))"
    by (simp only: o' r2 r1 gid)
qed

text \<open>
  Claim C5. When the group computed from the position is the entity's current group,
  \<^verbatim>\<open>handleEntityGroupMembership\<close> changes nothing and returns false. Otherwise, on a map whose
  adjacency stays inside the group table and for a computed group of the table, it returns
  true; afterwards the entity's group is the computed one, its id is in the roster of every
  group adjacent to that group, and in the roster of no group that is adjacent to the old
  group only.
\<close>

theorem membership_halo_replication:
  "(truthy (group (objs w e)) \<and> group (objs w e) = Some (computedGroup E w e) \<longrightarrow>
      handleEntityGroupMembership E w e = Inr (False, w)) \<and>
   (adjacencyClosed E w \<and>
    (\<forall>g. group (objs w e) = Some g \<and> g \<noteq> [] \<longrightarrow> g \<in> dom (groups w)) \<and>
    computedGroup E w e \<noteq> [] \<and> computedGroup E w e \<in> dom (groups w) \<and>
    group (objs w e) \<noteq> Some (computedGroup E w e) \<longrightarrow>
      (\<exists>w'. handleEntityGroupMembership E w e = Inr (True, w') \<and>
         group (objs w' e) = Some (computedGroup E w e) \<and>
         (\<forall>h \<in> set (forEachAdjacentGroup E (Some (computedGroup E w e))).
              e \<in> set (rosterOf w' h)) \<and>
         (truthy (group (objs w e)) \<longrightarrow>
            (\<forall>h \<in> set (forEachAdjacentGroup E (group (objs w e))) -
                    set (forEachAdjacentGroup E (Some (computedGroup E w e))).
               e \<notin> set (rosterOf w' h)))))"
proof (intro conjI impI)
  assume "truthy (group (objs w e)) \<and> group (objs w e) = Some (computedGroup E w e)"
  then show "handleEntityGroupMembership E w e = Inr (False, w)"
    unfolding computedGroup_def using hEGM_unchanged [of w e E] by blast
next
  assume a: "adjacencyClosed E w \<and>
    (\<forall>g. group (objs w e) = Some g \<and> g \<noteq> [] \<longrightarrow> g \<in> dom (groups w)) \<and>
    computedGroup E w e \<noteq> [] \<and> computedGroup E w e \<in> dom (groups w) \<and>
    group (objs w e) \<noteq> Some (computedGroup E w e)"
  then obtain c w' where h: "handleEntityGroupMembership E w e = Inr (c, w')"
    using hEGM_total [of E w e] by blast
  have "c"
    using hEGM_changed [OF h] a unfolding computedGroup_def by blast
  with h have h': "handleEntityGroupMembership E w e = Inr (True, w')" by simp
  note ro = hEGM_rosters [OF h']
  have 1: "group (objs w' e) = Some (computedGroup E w e)"
    using ro(1) a by simp
  have 2: "\<forall>h \<in> set (forEachAdjacentGroup E (Some (computedGroup E w e))). e \<in> set (rosterOf w' h)"
    using a by (simp add: ro(2))
  have 3: "truthy (group (objs w e)) \<longrightarrow>
            (\<forall>h \<in> set (forEachAdjacentGroup E (group (objs w e))) -
                    set (forEachAdjacentGroup E (Some (computedGroup E w e))).
               e \<notin> set (rosterOf w' h))"
    by (simp add: ro(2))
  from h' 1 2 3
  show "\<exists>w'. handleEntityGroupMembership E w e = Inr (True, w') \<and>
         group (objs w' e) = Some (computedGroup E w e) \<and>
         (\<forall>h \<in> set (forEachAdjacentGroup E (Some (computedGroup E w e))).
              e \<in> set (rosterOf w' h)) \<and>
         (truthy (group (objs w e)) \<longrightarrow>
            (\<forall>h \<in> set (forEachAdjacentGroup E (group (objs w e))) -
                    set (forEachAdjacentGroup E (Some (computedGroup E w e))).
               e \<notin> set (rosterOf w' h)))"
    by blast
qed

lemma haloWorld_closed: "adjacencyClosed haloEnv haloWorld"
  by (simp add: adjacencyClosed_def haloEnv_def haloWorld_def)

theorem membership_halo_replication_witness:
  "adjacencyClosed haloEnv haloWorld \<and>
   group (objs haloWorld 5) = Some ''z0'' \<and> computedGroup haloEnv haloWorld 5 = ''z2'' \<and>
   ''z0'' \<in> dom (groups haloWorld) \<and> ''z2'' \<in> dom (groups haloWorld) \<and>
   (\<exists>w'. handleEntityGroupMembership haloEnv haloWorld 5 = Inr (True, w') \<and>
      group (objs w' 5) = Some ''z2'' \<and>
      5 \<in> set (rosterOf w' ''z1'') \<and> 5 \<in> set (rosterOf w' ''z2'') \<and>
      5 \<in> set (rosterOf w' ''z3'') \<and> 5 \<notin> set (rosterOf w' ''z0'')) \<and>
   group (objs haloWorld 6) = Some ''z1'' \<and> computedGroup haloEnv haloWorld 6 = ''z1'' \<and>
   handleEntityGroupMembership haloEnv haloWorld 6 = Inr (False, haloWorld)"
proof -
  have g5: "group (objs haloWorld 5) = Some ''z0''" and g6: "group (objs haloWorld 6) = Some ''z1''"
    by (simp_all add: haloWorld_def blank_def)
  have c5: "computedGroup haloEnv haloWorld 5 = ''z2''"
    and c6: "computedGroup haloEnv haloWorld 6 = ''z1''"
    by (simp_all add: computedGroup_def haloEnv_def haloWorld_def blank_def)
  have d: "dom (groups haloWorld) = {''z0'', ''z1'', ''z2'', ''z3''}"
    by (auto simp: haloWorld_def)
  have a0: "forEachAdjacentGroup haloEnv (Some ''z0'') = [''z0'', ''z1'']"
    and a2: "forEachAdjacentGroup haloEnv (Some ''z2'') = [''z1'', ''z2'', ''z3'']"
    by (simp_all add: haloEnv_def)
  have t5: "truthy (group (objs haloWorld 5))" and t6: "truthy (group (objs haloWorld 6))"
    by (simp_all add: g5 g6 truthy_def)
  from membership_halo_replication [of haloWorld 5 haloEnv] haloWorld_closed
  have "\<exists>w'. handleEntityGroupMembership haloEnv haloWorld 5 = Inr (True, w') \<and>
      group (objs w' 5) = Some ''z2'' \<and>
      5 \<in> set (rosterOf w' ''z1'') \<and> 5 \<in> set (rosterOf w' ''z2'') \<and>
      5 \<in> set (rosterOf w' ''z3'') \<and> 5 \<notin> set (rosterOf w' ''z0'')"
    by (auto simp: g5 c5 d a0 a2 truthy_def)
  moreover
  from membership_halo_replication [of haloWorld 6 haloEnv]
  have "handleEntityGroupMembership haloEnv haloWorld 6 = Inr (False, haloWorld)"
    by (simp add: g6 c6 truthy_def)
  ultimately show ?thesis
    using haloWorld_closed by (simp add: g5 g6 c5 c6 d)
qed

section \<open>Lethal damage to a mob\<close>

lemma pushSeq_Nil [simp]: "pushSeq w [] = w"
  by (simp add: pushSeq_def)

lemma pushSeq_Cons: "pushSeq w (pm # ps) = pushSeq (pushToPlayer w (fst pm) (snd pm)) ps"
  by (simp add: pushSeq_def)

lemma pushSeq_append: "pushSeq w (ps @ qs) = pushSeq (pushSeq w ps) qs"
  by (simp add: pushSeq_def)

lemma pushToPlayer_fields [simp]:
  "objs (pushToPlayer w x m) = objs w"
  "entities (pushToPlayer w x m) = entities w"
  "groups (pushToPlayer w x m) = groups w"
  by (subst pushToPlayer_frame, simp)+

lemma pushSeq_fields [simp]:
  "objs (pushSeq w ps) = objs w"
  "entities (pushSeq w ps) = entities w"
  "groups (pushSeq w ps) = groups w"
  by (subst pushSeq_frame, simp)+

lemma playersOf_pushSeq [simp]: "playersOf (pushSeq w ps) g = playersOf w g"
  by (simp add: playersOf_def)

lemma groupRecipients_pushSeq [simp]:
  "groupRecipients (pushSeq w ps) g ign = groupRecipients w g ign"
  by (simp add: groupRecipients_def)

lemma pushToGroup_fold:
  "entities w' = entities w \<Longrightarrow>
   foldl (\<lambda>w' playerId.
            if Some playerId \<noteq> ign
            then pushToPlayer w' (getEntityById w' (Some playerId)) m
            else w') w' ps =
   pushSeq w' (toAll (filter (\<lambda>p. Some p \<noteq> ign \<and> p \<in> entities w) ps) m)"
proof (induction ps arbitrary: w')
  case Nil
  show ?case by (simp add: toAll_def)
next
  case (Cons p ps)
  show ?case
  proof (cases "Some p \<noteq> ign")
    case False
    with Cons show ?thesis by simp
  next
    case True
    show ?thesis
    proof (cases "p \<in> entities w")
      case T: True
      have "entities (pushToPlayer w' (Some p) m) = entities w" using Cons.prems by simp
      from Cons.IH [OF this] True T Cons.prems show ?thesis
        by (simp add: getEntityById_def toAll_def pushSeq_Cons)
    next
      case False
      with Cons True show ?thesis by (simp add: getEntityById_def)
    qed
  qed
qed

lemma pushToGroup_pushSeq:
  "pushToGroup w g m ign = pushSeq w (toAll (groupRecipients w g ign) m)"
proof (cases "groups w g")
  case None
  then show ?thesis
    by (simp add: pushToGroup_def groupRecipients_def playersOf_def toAll_def)
next
  case (Some grp)
  then show ?thesis
    using pushToGroup_fold [of w w ign m "gplayers grp"]
    by (simp add: pushToGroup_def groupRecipients_def playersOf_def)
qed

lemma toAll_append: "toAll (xs @ ys) m = toAll xs m @ toAll ys m"
  by (simp add: toAll_def)

lemma pushToAdjacent_fold:
  "foldl (\<lambda>w' g. pushToGroup w' g m ign) w gs =
     pushSeq w (toAll (concat (map (\<lambda>h. groupRecipients w h ign) gs)) m)"
proof (induction gs arbitrary: w)
  case Nil show ?case by (simp add: toAll_def)
next
  case (Cons g gs)
  let ?w1 = "pushToGroup w g m ign"
  have "foldl (\<lambda>w' g. pushToGroup w' g m ign) w (g # gs) =
        foldl (\<lambda>w' g. pushToGroup w' g m ign) ?w1 gs" by simp
  also have "\<dots> = pushSeq ?w1 (toAll (concat (map (\<lambda>h. groupRecipients ?w1 h ign) gs)) m)"
    by (rule Cons.IH)
  also have "\<dots> = pushSeq w (toAll (concat (map (\<lambda>h. groupRecipients w h ign) (g # gs))) m)"
    by (simp add: pushToGroup_pushSeq toAll_append pushSeq_append)
  finally show ?case .
qed

lemma pushToAdjacentGroups_pushSeq:
  "pushToAdjacentGroups E w g m ign = pushSeq w (toAll (adjacentRecipients E w g ign) m)"
  by (simp add: pushToAdjacentGroups_def adjacentRecipients_def pushToAdjacent_fold)

lemma adjacentRecipients_pushSeq [simp]:
  "adjacentRecipients E (pushSeq w ps) g ign = adjacentRecipients E w g ign"
  by (simp add: adjacentRecipients_def)

lemma adjacentRecipients_pushToPlayer [simp]:
  "adjacentRecipients E (pushToPlayer w x m) g ign = adjacentRecipients E w g ign"
  by (simp add: adjacentRecipients_def groupRecipients_def playersOf_def)

lemma map_of_pushed:
  "map_of (map (\<lambda>kq. (fst kq, snd kq @ f (fst kq))) qs) k = map_option (\<lambda>q. q @ f k) (map_of qs k)"
  by (induction qs) auto

lemma queueOf_pushSeq:
  "queueOf (pushSeq w ps) k = map_option (\<lambda>q. q @ messagesFor k ps) (queueOf w k)"
  by (simp add: queueOf_def pushSeq_queues map_of_pushed [where f = "\<lambda>k. messagesFor k ps"])

lemma messagesFor_append: "messagesFor k (ps @ qs) = messagesFor k ps @ messagesFor k qs"
  by (simp add: messagesFor_def)

lemma messagesFor_Nil [simp]: "messagesFor k [] = []"
  by (simp add: messagesFor_def)

lemma messagesFor_Cons:
  "messagesFor k (pm # ps) = (if fst pm = Some k then [snd pm] else []) @ messagesFor k ps"
  by (simp add: messagesFor_def)

lemma messagesFor_toAll: "messagesFor k (toAll rs m) = replicate (count_list rs k) m"
  by (induction rs) (auto simp: messagesFor_def toAll_def)

lemma getDroppedItem_queues:
  assumes "getDroppedItem E w mob v = Inr (item, w')"
  shows "outgoingQueues w' = outgoingQueues w"
proof -
  from assms obtain drops where
    drops: "Properties E (propertyKey (getKindAsString E (kind (objs w mob)))) = Some drops"
    by (auto simp: getDroppedItem_def split: option.splits)
  show ?thesis
  proof (cases "dropLoop v 0 (dropsTable drops)")
    case None
    with assms drops show ?thesis by (simp add: getDroppedItem_def)
  next
    case (Some itemName)
    let ?c = "createItem E w (getKindFromString E itemName) (posx (objs w mob)) (posy (objs w mob))"
    from assms drops Some obtain c w2 where
      h: "handleEntityGroupMembership E ((snd ?c)\<lparr>entities := insert (fst ?c) (entities (snd ?c))\<rparr>)
            (fst ?c) = Inr (c, w2)"
      and w': "w' = w2\<lparr>items := insert (fst ?c) (items w2)\<rparr>"
      by (auto simp: getDroppedItem_def addItem_def addEntity_def bindE_Inr_iff
               split: prod.splits)
    from groupFrame_hEGM [OF h] have "outgoingQueues w2 = outgoingQueues (snd ?c)"
      by (simp add: groupFrame_def)
    then show ?thesis by (simp add: w' createItem_def Let_def)
  qed
qed

lemma clearMobAggroLink_queues [simp]:
  "outgoingQueues (clearMobAggroLink w mob) = outgoingQueues w"
  by (simp add: clearMobAggroLink_def split: option.splits)

lemma clearMobHateLinks_fold_queues:
  "outgoingQueues (foldl (\<lambda>w' obj.
              case getEntityById w' (Some (fst obj)) of
                None \<Rightarrow> w'
              | Some player \<Rightarrow> updObj w' player (\<lambda>p. removeHater p mob)) w hl) = outgoingQueues w"
  by (induction hl arbitrary: w) (simp_all split: option.splits)

lemma clearMobHateLinks_queues [simp]:
  "outgoingQueues (clearMobHateLinks w mob) = outgoingQueues w"
  by (simp add: clearMobHateLinks_def clearMobHateLinks_fold_queues)

lemma removeEntity_queues:
  assumes "removeEntity E w e = Inr w'"
  shows "outgoingQueues w' = outgoingQueues w"
proof -
  let ?w1 = "w\<lparr>entities := entities w - {e}, mobs := mobs w - {e}, items := items w - {e}\<rparr>"
  let ?w2 = "if cls (objs ?w1 e) = MobC then clearMobHateLinks (clearMobAggroLink ?w1 e) e else ?w1"
  from assms obtain old where r: "removeFromGroups E (updObj ?w2 e destroy) e = Inr (old, w')"
    by (auto simp: removeEntity_def Let_def bindE_Inr_iff)
  from groupFrame_removeFromGroups [OF r]
  have "outgoingQueues w' = outgoingQueues (updObj ?w2 e destroy)"
    by (simp add: groupFrame_def)
  then show ?thesis by simp
qed

lemma mobDeath_result:
  assumes "mobDeath E w mob attacker v = Inr w6"
  shows "\<exists>item w3.
           getDroppedItem E w mob v = Inr (item, w3) \<and>
           w6 = pushSeq w3
                  ([(attacker, Kill mob)] @
                   toAll (adjacentRecipients E w3 (group (objs w3 mob)) None) (Despawn mob) @
                   (case item of None \<Rightarrow> []
                    | Some it \<Rightarrow>
                        toAll (adjacentRecipients E w3 (group (objs w3 mob)) None) (Drop mob it)))"
proof -
  from assms obtain item w3 where
    g: "getDroppedItem E w mob v = Inr (item, w3)"
    and w6: "w6 = (let w4 = pushToPlayer w3 attacker (Kill mob);
                       w5 = pushToAdjacentGroups E w4 (group (objs w4 mob)) (Despawn mob) None
                   in case item of None \<Rightarrow> w5
                      | Some it \<Rightarrow> handleItemDespawn
                          (pushToAdjacentGroups E w5 (group (objs w5 mob)) (Drop mob it) None) (Some it))"
    by (auto simp: mobDeath_def bindE_Inr_iff Let_def)
  have w4: "pushToPlayer w3 attacker (Kill mob) = pushSeq w3 [(attacker, Kill mob)]"
    by (simp add: pushSeq_Cons)
  have "w6 = pushSeq w3
                  ([(attacker, Kill mob)] @
                   toAll (adjacentRecipients E w3 (group (objs w3 mob)) None) (Despawn mob) @
                   (case item of None \<Rightarrow> []
                    | Some it \<Rightarrow>
                        toAll (adjacentRecipients E w3 (group (objs w3 mob)) None) (Drop mob it)))"
    unfolding w6 Let_def
    by (cases item)
       (simp_all add: pushToAdjacentGroups_pushSeq handleItemDespawn_def pushSeq_Cons
          pushSeq_append)
  with g show ?thesis by blast
qed

lemma getDroppedItem_not_player:
  assumes "getDroppedItem E w mob v = Inr (item, w')" and "cls (objs w e) \<noteq> PlayerC"
  shows "cls (objs w' e) \<noteq> PlayerC"
proof -
  from assms obtain drops where
    drops: "Properties E (propertyKey (getKindAsString E (kind (objs w mob)))) = Some drops"
    by (auto simp: getDroppedItem_def split: option.splits)
  show ?thesis
  proof (cases "dropLoop v 0 (dropsTable drops)")
    case None
    with assms drops show ?thesis by (simp add: getDroppedItem_def)
  next
    case (Some itemName)
    let ?c = "createItem E w (getKindFromString E itemName) (posx (objs w mob)) (posy (objs w mob))"
    let ?w1 = "(snd ?c)\<lparr>entities := insert (fst ?c) (entities (snd ?c))\<rparr>"
    from assms drops Some obtain c w2 where
      h: "handleEntityGroupMembership E ?w1 (fst ?c) = Inr (c, w2)"
      and w': "w' = w2\<lparr>items := insert (fst ?c) (items w2)\<rparr>"
      by (auto simp: getDroppedItem_def addItem_def addEntity_def bindE_Inr_iff
               split: prod.splits)
    have 1: "cls (objs ?w1 e) \<noteq> PlayerC"
      using assms(2) by (simp add: createItem_def Let_def newItem_def)
    from groupFrame_hEGM [OF h]
    have "e \<noteq> fst ?c \<Longrightarrow> objs w2 e = objs ?w1 e"
      and "sameUpToGroup (objs ?w1 (fst ?c)) (objs w2 (fst ?c))"
      by (simp_all add: groupFrame_def)
    then have "cls (objs w2 e) = cls (objs ?w1 e)"
      by (cases "e = fst ?c") (auto simp: sameUpToGroup_fields)
    with 1 show ?thesis by (simp add: w')
  qed
qed

text \<open>
  Claim C7. When \<^verbatim>\<open>handleHurtEntity\<close> returns for a mob with no hit points left, the
  queues are those obtained by pushing, in this order: the damage notice and the kill
  notice to the attacker, the despawn to every recipient of the groups adjacent to the
  mob's group, and then, only when the loot roll returned an item, the drop to the same
  recipients. So in every queue the kill notice (attacker only) precedes the despawns, and
  every drop comes after all despawns; no drop is enqueued when no item was rolled.
\<close>

theorem lethal_mob_damage_message_order:
  assumes "cls (objs w mob) = MobC" and "hitPoints (objs w mob) \<le> 0"
    and "handleHurtEntity E w mob attacker damage v = Inr w'"
  shows "\<exists>item w3 recipients.
           getDroppedItem E (pushToPlayer w attacker (Damage mob damage)) mob v = Inr (item, w3) \<and>
           recipients = adjacentRecipients E w3 (group (objs w3 mob)) None \<and>
           outgoingQueues w' =
             outgoingQueues (pushSeq w
               ([(attacker, Damage mob damage), (attacker, Kill mob)] @
                toAll recipients (Despawn mob) @
                (case item of None \<Rightarrow> [] | Some it \<Rightarrow> toAll recipients (Drop mob it)))) \<and>
           (\<forall>k. queueOf w' k =
                map_option (\<lambda>q. q @
                    (if attacker = Some k then [Damage mob damage, Kill mob] else []) @
                    replicate (count_list recipients k) (Despawn mob) @
                    (case item of None \<Rightarrow> []
                     | Some it \<Rightarrow> replicate (count_list recipients k) (Drop mob it)))
                  (queueOf w k))"
proof -
  let ?w2 = "pushToPlayer w attacker (Damage mob damage)"
  have c2: "cls (objs ?w2 mob) = MobC" "hitPoints (objs ?w2 mob) \<le> 0"
    using assms(1,2) by simp_all
  from assms(3) obtain w6 where
    m: "mobDeath E ?w2 mob attacker v = Inr w6"
    and rest: "bindE (if cls (objs w6 mob) = PlayerC then playerDeath E w6 mob else Inr w6)
                 (\<lambda>w8. removeEntity E w8 mob) = Inr w'"
    using assms(1,2) by (auto simp: handleHurtEntity_def Let_def bindE_Inr_iff)
  from mobDeath_result [OF m] obtain item w3 where
    g: "getDroppedItem E ?w2 mob v = Inr (item, w3)"
    and w6: "w6 = pushSeq w3
                  ([(attacker, Kill mob)] @
                   toAll (adjacentRecipients E w3 (group (objs w3 mob)) None) (Despawn mob) @
                   (case item of None \<Rightarrow> []
                    | Some it \<Rightarrow>
                        toAll (adjacentRecipients E w3 (group (objs w3 mob)) None) (Drop mob it)))"
    by blast
  let ?R = "adjacentRecipients E w3 (group (objs w3 mob)) None"
  let ?tail = "[(attacker, Kill mob)] @ toAll ?R (Despawn mob) @
                (case item of None \<Rightarrow> [] | Some it \<Rightarrow> toAll ?R (Drop mob it))"
  have "cls (objs ?w2 mob) \<noteq> PlayerC" using c2 by simp
  from getDroppedItem_not_player [OF g this] have "cls (objs w6 mob) \<noteq> PlayerC"
    by (simp add: w6)
  with rest have "removeEntity E w6 mob = Inr w'" by (simp add: bindE_def)
  from removeEntity_queues [OF this] have q': "outgoingQueues w' = outgoingQueues w6" .
  have q3: "outgoingQueues w3 = outgoingQueues ?w2" by (rule getDroppedItem_queues [OF g])
  have w2: "?w2 = pushSeq w [(attacker, Damage mob damage)]" by (simp add: pushSeq_Cons)
  have q6: "outgoingQueues w6 =
      outgoingQueues (pushSeq w ([(attacker, Damage mob damage)] @ ?tail))"
    unfolding w6 pushSeq_append [of w] w2 [symmetric]
    by (simp only: pushSeq_queues q3)
  have trace: "outgoingQueues w' =
             outgoingQueues (pushSeq w
               ([(attacker, Damage mob damage), (attacker, Kill mob)] @
                toAll ?R (Despawn mob) @
                (case item of None \<Rightarrow> [] | Some it \<Rightarrow> toAll ?R (Drop mob it))))"
    using q' q6 by simp
  have per: "\<forall>k. queueOf w' k =
                map_option (\<lambda>q. q @
                    (if attacker = Some k then [Damage mob damage, Kill mob] else []) @
                    replicate (count_list ?R k) (Despawn mob) @
                    (case item of None \<Rightarrow> []
                     | Some it \<Rightarrow> replicate (count_list ?R k) (Drop mob it)))
                  (queueOf w k)"
  proof
    fix k
    have "queueOf w' k = queueOf (pushSeq w
               ([(attacker, Damage mob damage), (attacker, Kill mob)] @
                toAll ?R (Despawn mob) @
                (case item of None \<Rightarrow> [] | Some it \<Rightarrow> toAll ?R (Drop mob it)))) k"
      by (simp only: queueOf_def trace)
    also have "\<dots> = map_option (\<lambda>q. q @
                    (if attacker = Some k then [Damage mob damage, Kill mob] else []) @
                    replicate (count_list ?R k) (Despawn mob) @
                    (case item of None \<Rightarrow> []
                     | Some it \<Rightarrow> replicate (count_list ?R k) (Drop mob it)))
                  (queueOf w k)"
      by (cases item)
         (simp_all add: queueOf_pushSeq messagesFor_append messagesFor_toAll messagesFor_Cons)
    finally show "queueOf w' k =
                map_option (\<lambda>q. q @
                    (if attacker = Some k then [Damage mob damage, Kill mob] else []) @
                    replicate (count_list ?R k) (Despawn mob) @
                    (case item of None \<Rightarrow> []
                     | Some it \<Rightarrow> replicate (count_list ?R k) (Drop mob it)))
                  (queueOf w k)" .
  qed
  from g trace per show ?thesis by blast
qed

lemmas combat_defs = handleHurtEntity_def mobDeath_def getDroppedItem_def haloEnv_def
  combatWorld_def blank_def propertyKey_def dropsTable_def createItem_def itemId_def
  addItem_def addEntity_def handleEntityGroupMembership_def Let_def truthy_def newItem_def
  addAsIncomingToGroup_def removeFromGroups_def addToGroup_def bindE_def updObj_def
  updGroup_def includesId_def rosterInsert_def rosterDelete_def difference_def
  pushToPlayer_def pushToAdjacentGroups_def pushToGroup_def getEntityById_def
  handleItemDespawn_def removeEntity_def clearMobAggroLink_def clearMobHateLinks_def
  destroy_def clearTarget_def removeAttacker_def removeHater_def queueOf_def

theorem lethal_mob_damage_message_order_witness:
  "cls (objs combatWorld 5) = MobC \<and> hitPoints (objs combatWorld 5) \<le> 0 \<and>
   (\<exists>w' item (recipients :: ident list).
      handleHurtEntity haloEnv combatWorld 5 (Some 2) 7 10 = Inr w' \<and>
      queueOf w' 2 = Some ([] @ [Damage 5 7, Kill 5] @
                      replicate (count_list recipients 2) (Despawn 5) @
                      (case item of None \<Rightarrow> []
                       | Some it \<Rightarrow> replicate (count_list recipients 2) (Drop 5 it))) \<and>
      queueOf w' 2 = Some [Damage 5 7, Kill 5, Despawn 5, Drop 5 90] \<and>
      queueOf w' 3 = Some [Despawn 5, Drop 5 90] \<and>
      queueOf w' 4 = Some [])"
proof -
  have c: "cls (objs combatWorld 5) = MobC" and hp: "hitPoints (objs combatWorld 5) \<le> 0"
    and q: "queueOf combatWorld 2 = Some []"
    by (simp_all add: combatWorld_def blank_def queueOf_def)
  have "\<exists>w'. handleHurtEntity haloEnv combatWorld 5 (Some 2) 7 10 = Inr w' \<and>
          queueOf w' 2 = Some [Damage 5 7, Kill 5, Despawn 5, Drop 5 90] \<and>
          queueOf w' 3 = Some [Despawn 5, Drop 5 90] \<and>
          queueOf w' 4 = Some []"
    by (simp add: combat_defs)
  then obtain w' where h: "handleHurtEntity haloEnv combatWorld 5 (Some 2) 7 10 = Inr w'"
    and e: "queueOf w' 2 = Some [Damage 5 7, Kill 5, Despawn 5, Drop 5 90]"
      "queueOf w' 3 = Some [Despawn 5, Drop 5 90]" "queueOf w' 4 = Some []"
    by blast
  from lethal_mob_damage_message_order [OF c hp h] obtain item recipients where
    per: "\<forall>k. queueOf w' k = map_option (\<lambda>q. q @
                    (if Some 2 = Some k then [Damage 5 7, Kill 5] else []) @
                    replicate (count_list recipients k) (Despawn 5) @
                    (case item of None \<Rightarrow> []
                     | Some it \<Rightarrow> replicate (count_list recipients k) (Drop 5 it)))
                  (queueOf combatWorld k)"
    by blast
  from per [rule_format, of 2] q
  have "queueOf w' 2 = Some ([] @ [Damage 5 7, Kill 5] @
                      replicate (count_list recipients 2) (Despawn 5) @
                      (case item of None \<Rightarrow> []
                       | Some it \<Rightarrow> replicate (count_list recipients 2) (Drop 5 it)))"
    by simp
  with c hp h e show ?thesis by blast
qed

section \<open>The groups an entity has left\<close>

lemma removeFromRosters_distinct:
  "removeFromRosters e gs (old, w) = Inr (old', w') \<Longrightarrow>
   distinct old \<Longrightarrow> \<forall>g \<in> set old. e \<notin> set (rosterOf w g) \<Longrightarrow>
   distinct old' \<and> (\<forall>g \<in> set old'. e \<notin> set (rosterOf w' g))"
proof (induction gs arbitrary: old w)
  case Nil
  then show ?case by simp
next
  case (Cons g gs)
  from Cons.prems(1) obtain grp where grp: "groups w g = Some grp"
    by (auto split: option.splits)
  show ?case
  proof (cases "e \<in> set (gentities grp)")
    case True
    let ?w1 = "updGroup w g (rosterDelete e grp)"
    from Cons.prems(1) grp True
    have r: "removeFromRosters e gs (old @ [g], ?w1) = Inr (old', w')" by simp
    have gin: "e \<in> set (rosterOf w g)" using True grp by (simp add: rosterOf_def)
    with Cons.prems(3) have "g \<notin> set old" by auto
    with Cons.prems(2) have d: "distinct (old @ [g])" by simp
    have ro: "\<And>h. rosterOf ?w1 h = (if h = g then removeAll e (gentities grp) else rosterOf w h)"
      by (simp add: rosterOf_def updGroup_def rosterDelete_def)
    have "\<forall>h \<in> set (old @ [g]). e \<notin> set (rosterOf ?w1 h)"
      using Cons.prems(3) by (auto simp: ro)
    from Cons.IH [OF r d this] show ?thesis .
  next
    case False
    from Cons.prems(1) grp False
    have r: "removeFromRosters e gs (old, w) = Inr (old', w')" by simp
    from Cons.IH [OF r Cons.prems(2,3)] show ?thesis .
  qed
qed

lemma removeFromGroups_distinct:
  assumes "removeFromGroups E w e = Inr (old, w')"
  shows "distinct old"
proof (cases "truthy (group (objs w e))")
  case False
  from removeFromGroups_falsy [OF this, of E] assms show ?thesis by simp
next
  case True
  then obtain g0 where g0: "group (objs w e) = Some g0" "g0 \<noteq> []"
    by (auto simp: truthy_def split: option.splits)
  from assms g0 obtain w1 w2 where
    "removeFromRosters e (forEachAdjacentGroup E (Some g0)) ([], w1) = Inr (old, w2)"
    by (auto simp: removeFromGroups_def bindE_Inr_iff)
  from removeFromRosters_distinct [OF this] show ?thesis by simp
qed

lemma addToGroup_newGroups:
  assumes "addToGroup E w e groupId = Inr (new, w')"
  shows "new = (if groupId \<noteq> [] \<and> groupId \<in> dom (groups w)
                then forEachAdjacentGroup E (Some groupId) else [])"
proof (cases "groupId \<noteq> [] \<and> groupId \<in> dom (groups w)")
  case False
  from addToGroup_skip [OF this, of E e] assms False show ?thesis by auto
next
  case True
  then have g: "groupId \<noteq> []" "groupId \<in> dom (groups w)" by simp_all
  from addToGroup_result(2) [OF assms g] True show ?thesis by simp
qed

lemma pushToPreviousGroups_queues:
  "outgoingQueues (pushToPreviousGroups v e m) =
     outgoingQueues (pushSeq v
       (toAll (concat (map (\<lambda>g. groupRecipients v g None) (recentlyLeftGroups (objs v e)))) m))"
  by (simp add: pushToPreviousGroups_def pushToAdjacent_fold)

lemma pushToPreviousGroups_cleared:
  "recentlyLeftGroups (objs (pushToPreviousGroups v e m) e) = []"
  by (simp add: pushToPreviousGroups_def objs_updObj)

lemma pushToPreviousGroups_again:
  "outgoingQueues (pushToPreviousGroups (pushToPreviousGroups v e m) e m') =
   outgoingQueues (pushToPreviousGroups v e m)"
  by (simp add: pushToPreviousGroups_queues [of "pushToPreviousGroups v e m"]
        pushToPreviousGroups_cleared toAll_def)

text \<open>
  Claim C6, as amended. A transition of \<^verbatim>\<open>handleEntityGroupMembership\<close> removes the entity
  from the rosters \<open>oldGroups\<close>, which are the groups adjacent to its old group that held it
  (\<open>leftRosters\<close>, each listed once), and adds it to \<open>newGroups\<close>, which is its new halo
  (\<open>newHalo\<close>). When \<open>oldGroups\<close> is not empty, \<open>recentlyLeftGroups\<close> afterwards is
  \<open>oldGroups\<close> without \<open>newGroups\<close>: the groups it was removed from minus the groups of its
  new halo. When \<open>oldGroups\<close> is empty (the guard \<^verbatim>\<open>size(oldGroups) > 0\<close>), and when nothing
  changes, the field keeps its earlier value. \<^verbatim>\<open>pushToPreviousGroups\<close> consumes the field
  exactly once: it pushes the message to the recipients of the listed groups, in order,
  leaves the field empty, and a second call pushes nothing.
\<close>

theorem recentlyLeftGroups_transition:
  assumes "handleEntityGroupMembership E w e = Inr (changed, w')"
  shows "(\<not> changed \<longrightarrow> w' = w) \<and>
         (changed \<longrightarrow>
            (\<exists>oldGroups newGroups wa wb.
               removeFromGroups E (addAsIncomingToGroup E w e (computedGroup E w e)) e
                 = Inr (oldGroups, wa) \<and>
               addToGroup E wa e (computedGroup E w e) = Inr (newGroups, wb) \<and>
               distinct oldGroups \<and>
               set oldGroups = leftRosters E w e \<and>
               newGroups = newHalo E w e \<and>
               (oldGroups \<noteq> [] \<longrightarrow>
                  recentlyLeftGroups (objs w' e) = difference oldGroups newGroups \<and>
                  set (recentlyLeftGroups (objs w' e)) = set oldGroups - set newGroups) \<and>
               (oldGroups = [] \<longrightarrow>
                  recentlyLeftGroups (objs w' e) = recentlyLeftGroups (objs w e)))) \<and>
         (changed \<and> leftRosters E w e \<noteq> {} \<longrightarrow>
            distinct (recentlyLeftGroups (objs w' e)) \<and>
            set (recentlyLeftGroups (objs w' e)) = leftRosters E w e - set (newHalo E w e)) \<and>
         (changed \<and> leftRosters E w e = {} \<longrightarrow>
            recentlyLeftGroups (objs w' e) = recentlyLeftGroups (objs w e)) \<and>
         (\<forall>v m. recentlyLeftGroups (objs (pushToPreviousGroups v e m) e) = [] \<and>
            outgoingQueues (pushToPreviousGroups v e m) =
              outgoingQueues (pushSeq v
                (toAll (concat (map (\<lambda>g. groupRecipients v g None)
                                   (recentlyLeftGroups (objs v e)))) m)) \<and>
            (\<forall>m'. outgoingQueues (pushToPreviousGroups (pushToPreviousGroups v e m) e m') =
                  outgoingQueues (pushToPreviousGroups v e m)))"
proof -
  let ?gid = "getGroupIdFromPosition E (posx (objs w e)) (posy (objs w e))"
  let ?wa = "addAsIncomingToGroup E w e ?gid"
  have consume: "\<forall>v m. recentlyLeftGroups (objs (pushToPreviousGroups v e m) e) = [] \<and>
            outgoingQueues (pushToPreviousGroups v e m) =
              outgoingQueues (pushSeq v
                (toAll (concat (map (\<lambda>g. groupRecipients v g None)
                                   (recentlyLeftGroups (objs v e)))) m)) \<and>
            (\<forall>m'. outgoingQueues (pushToPreviousGroups (pushToPreviousGroups v e m) e m') =
                  outgoingQueues (pushToPreviousGroups v e m))"
    using pushToPreviousGroups_cleared pushToPreviousGroups_queues pushToPreviousGroups_again
    by blast
  show ?thesis
  proof (cases "truthy (group (objs w e)) \<and> group (objs w e) = Some ?gid")
    case True
    then have "handleEntityGroupMembership E w e = Inr (False, w)"
      using hEGM_unchanged [of w e E] by blast
    with assms have "\<not> changed" "w' = w" by simp_all
    with consume show ?thesis by blast
  next
    case False
    from hEGM_changed [OF assms False] obtain old new w1 w2 where c: changed
      and r: "removeFromGroups E ?wa e = Inr (old, w1)"
      and a: "addToGroup E w1 e ?gid = Inr (new, w2)"
      and w': "w' = (if old \<noteq> []
                 then updObj w2 e (\<lambda>x. x\<lparr>recentlyLeftGroups := difference old new\<rparr>)
                 else w2)" by blast
    have sa: "sameButIncoming w ?wa" by (rule addAsIncomingToGroup_same)
    have oa: "objs ?wa = objs w" by (rule sameButIncoming_objs [OF sa])
    have da: "dom (groups ?wa) = dom (groups w)" by (rule sameButIncoming_dom [OF sa])
    have ra: "\<And>k. rosterOf ?wa k = rosterOf w k" by (rule sameButIncoming_rosterOf [OF sa])
    have di: "distinct old" by (rule removeFromGroups_distinct [OF r])
    have so: "set old = leftRosters E w e"
    proof (cases "truthy (group (objs w e))")
      case F: False
      then have "\<not> truthy (group (objs ?wa e))" by (simp add: oa)
      from removeFromGroups_falsy [OF this, of E] r F show ?thesis
        by (simp add: leftRosters_def)
    next
      case True
      then obtain g0 where g0: "group (objs ?wa e) = Some g0" "g0 \<noteq> []"
        by (auto simp: truthy_def oa split: option.splits)
      from removeFromGroups_result(2) [OF r g0] True g0 show ?thesis
        by (simp add: ra oa leftRosters_def)
    qed
    from groupFrame_removeFromGroups [OF r] have d1: "dom (groups w1) = dom (groups w)"
      by (simp add: groupFrame_def da)
    have sn: "new = newHalo E w e"
      using addToGroup_newGroups [OF a] by (simp add: newHalo_def computedGroup_def d1)
    have keep: "recentlyLeftGroups (objs w2 e) = recentlyLeftGroups (objs w e)"
    proof -
      have 1: "recentlyLeftGroups (objs ?wa e) = recentlyLeftGroups (objs w e)" by (simp add: oa)
      have 2: "recentlyLeftGroups (objs w1 e) = recentlyLeftGroups (objs ?wa e)"
      proof (cases "truthy (group (objs ?wa e))")
        case False
        from removeFromGroups_falsy [OF this, of E] r show ?thesis by simp
      next
        case True
        then obtain g0 where g0: "group (objs ?wa e) = Some g0" "g0 \<noteq> []"
          by (auto simp: truthy_def split: option.splits)
        show ?thesis unfolding removeFromGroups_result(1) [OF r g0] by (simp add: objs_updObj)
      qed
      have 3: "recentlyLeftGroups (objs w2 e) = recentlyLeftGroups (objs w1 e)"
      proof (cases "?gid \<noteq> [] \<and> ?gid \<in> dom (groups w1)")
        case False
        from addToGroup_skip [OF this, of E e] a show ?thesis by simp
      next
        case True
        then have v: "?gid \<noteq> []" "?gid \<in> dom (groups w1)" by simp_all
        show ?thesis unfolding addToGroup_result(1) [OF a v] by (simp add: objs_updObj)
      qed
      from 1 2 3 show ?thesis by simp
    qed
    have ne: "old \<noteq> [] \<longrightarrow>
                  recentlyLeftGroups (objs w' e) = difference old new \<and>
                  set (recentlyLeftGroups (objs w' e)) = set old - set new"
      by (auto simp: w' objs_updObj difference_def)
    have em: "old = [] \<longrightarrow> recentlyLeftGroups (objs w' e) = recentlyLeftGroups (objs w e)"
      by (simp add: w' keep)
    have ex: "\<exists>oldGroups newGroups wa wb.
               removeFromGroups E (addAsIncomingToGroup E w e (computedGroup E w e)) e
                 = Inr (oldGroups, wa) \<and>
               addToGroup E wa e (computedGroup E w e) = Inr (newGroups, wb) \<and>
               distinct oldGroups \<and>
               set oldGroups = leftRosters E w e \<and>
               newGroups = newHalo E w e \<and>
               (oldGroups \<noteq> [] \<longrightarrow>
                  recentlyLeftGroups (objs w' e) = difference oldGroups newGroups \<and>
                  set (recentlyLeftGroups (objs w' e)) = set oldGroups - set newGroups) \<and>
               (oldGroups = [] \<longrightarrow>
                  recentlyLeftGroups (objs w' e) = recentlyLeftGroups (objs w e))"
      using r a di so sn ne em unfolding computedGroup_def by blast
    have old_ne: "old \<noteq> [] \<longleftrightarrow> leftRosters E w e \<noteq> {}"
      using so by auto
    have dir1: "leftRosters E w e \<noteq> {} \<longrightarrow>
            distinct (recentlyLeftGroups (objs w' e)) \<and>
            set (recentlyLeftGroups (objs w' e)) = leftRosters E w e - set (newHalo E w e)"
    proof
      assume "leftRosters E w e \<noteq> {}"
      with old_ne have o: "old \<noteq> []" by simp
      with ne have "recentlyLeftGroups (objs w' e) = difference old new"
        and "set (recentlyLeftGroups (objs w' e)) = set old - set new" by blast+
      then show "distinct (recentlyLeftGroups (objs w' e)) \<and>
            set (recentlyLeftGroups (objs w' e)) = leftRosters E w e - set (newHalo E w e)"
        using di by (simp add: difference_def so sn)
    qed
    have dir2: "leftRosters E w e = {} \<longrightarrow>
            recentlyLeftGroups (objs w' e) = recentlyLeftGroups (objs w e)"
      using em old_ne by simp
    from c ex dir1 dir2 consume show ?thesis by blast
  qed
qed

text \<open>
  Mob 5 moves from zone \<open>z0\<close> to zone \<open>z2\<close>, is removed and is added again: the last
  transition has no old groups, and \<open>recentlyLeftGroups\<close> still holds \<open>z0\<close>.
\<close>

theorem recentlyLeftGroups_stale_counterexample:
  "\<exists>w1 w2 w3 wa wb newGroups.
     moveEntity haloEnv haloWorld 5 25 4 = Inr w1 \<and>
     recentlyLeftGroups (objs w1 5) = [''z0''] \<and>
     removeEntity haloEnv w1 5 = Inr w2 \<and>
     handleEntityGroupMembership haloEnv w2 5 = Inr (True, w3) \<and>
     removeFromGroups haloEnv (addAsIncomingToGroup haloEnv w2 5 (computedGroup haloEnv w2 5)) 5
       = Inr ([], wa) \<and>
     addToGroup haloEnv wa 5 (computedGroup haloEnv w2 5) = Inr (newGroups, wb) \<and>
     recentlyLeftGroups (objs w3 5) = [''z0''] \<and>
     recentlyLeftGroups (objs w3 5) \<noteq> difference [] newGroups"
  by (simp add: moveEntity_def removeEntity_def handleEntityGroupMembership_def haloEnv_def
        haloWorld_def blank_def computedGroup_def Let_def truthy_def addAsIncomingToGroup_def
        removeFromGroups_def addToGroup_def bindE_def updObj_def updGroup_def includesId_def
        rosterInsert_def rosterDelete_def difference_def clearMobAggroLink_def
        clearMobHateLinks_def destroy_def clearTarget_def getEntityById_def)

lemma distinct_singleton: "distinct xs \<Longrightarrow> set xs = {a} \<Longrightarrow> xs = [a]"
  by (cases xs) (auto simp: insert_eq_iff dest: subset_singletonD)

theorem recentlyLeftGroups_transition_witness:
  "leftRosters haloEnv haloWorld 5 = {''z0'', ''z1''} \<and>
   newHalo haloEnv haloWorld 5 = [''z1'', ''z2'', ''z3''] \<and>
   (\<exists>w'. handleEntityGroupMembership haloEnv haloWorld 5 = Inr (True, w') \<and>
      recentlyLeftGroups (objs w' 5) = [''z0''] \<and>
      recentlyLeftGroups (objs (pushToPreviousGroups w' 5 (Destroy 5)) 5) = [] \<and>
      outgoingQueues (pushToPreviousGroups (pushToPreviousGroups w' 5 (Destroy 5)) 5 (Destroy 5)) =
        outgoingQueues (pushToPreviousGroups w' 5 (Destroy 5)))"
proof -
  have "\<exists>w'. handleEntityGroupMembership haloEnv haloWorld 5 = Inr (True, w')"
    by (simp add: handleEntityGroupMembership_def haloEnv_def
        haloWorld_def blank_def Let_def truthy_def addAsIncomingToGroup_def
        removeFromGroups_def addToGroup_def bindE_def updObj_def updGroup_def includesId_def
        rosterInsert_def rosterDelete_def difference_def)
  then obtain w' where h: "handleEntityGroupMembership haloEnv haloWorld 5 = Inr (True, w')"
    by blast
  have l: "leftRosters haloEnv haloWorld 5 = {''z0'', ''z1''}"
    by (auto simp: leftRosters_def truthy_def haloWorld_def haloEnv_def blank_def rosterOf_def)
  have n: "newHalo haloEnv haloWorld 5 = [''z1'', ''z2'', ''z3'']"
    by (simp add: newHalo_def computedGroup_def haloWorld_def haloEnv_def blank_def)
  note th = recentlyLeftGroups_transition [OF h]
  note dir = th [THEN conjunct2, THEN conjunct2, THEN conjunct1, rule_format]
  note con = th [THEN conjunct2, THEN conjunct2, THEN conjunct2, THEN conjunct2, rule_format,
      of w' "Destroy 5"]
  have "leftRosters haloEnv haloWorld 5 \<noteq> {}" by (simp add: l)
  with dir have d: "distinct (recentlyLeftGroups (objs w' 5))"
    and s: "set (recentlyLeftGroups (objs w' 5)) =
            leftRosters haloEnv haloWorld 5 - set (newHalo haloEnv haloWorld 5)"
    by simp_all
  have "leftRosters haloEnv haloWorld 5 - set (newHalo haloEnv haloWorld 5) = {''z0''}"
    by (auto simp: l n)
  with s have "set (recentlyLeftGroups (objs w' 5)) = {''z0''}" by simp
  from distinct_singleton [OF d this] have v: "recentlyLeftGroups (objs w' 5) = [''z0'']" .
  from con have c1: "recentlyLeftGroups (objs (pushToPreviousGroups w' 5 (Destroy 5)) 5) = []"
    and c2: "outgoingQueues (pushToPreviousGroups (pushToPreviousGroups w' 5 (Destroy 5)) 5 (Destroy 5)) =
        outgoingQueues (pushToPreviousGroups w' 5 (Destroy 5))"
    by simp_all
  from l n h v c1 c2 show ?thesis by blast
qed

section \<open>Aggro links\<close>

lemmas aggro_defs = handlePlayerVanish_def chooseMobTarget_def getHatedPlayerId_def
  broadcastAttacker_def attack_callback_def moveEntity_def isValidPosition_def
  addAttacker_def setTarget_def forgetPlayer_def haloEnv_def
  calmWorld_def blank_def handleMobHate_def increaseHateFor_def addHater_def
  handleEntityGroupMembership_def Let_def truthy_def
  addAsIncomingToGroup_def removeFromGroups_def addToGroup_def bindE_def updObj_def
  updGroup_def includesId_def rosterInsert_def rosterDelete_def difference_def
  pushToPlayer_def pushToAdjacentGroups_def pushToGroup_def getEntityById_def
  clearMobAggroLink_def clearTarget_def removeAttacker_def

text \<open>
  Claim C2, at a failing input. Mob 5 comes to hate player 2 (10 points) and player 3
  (5 points) and attacks player 2. When player 2 vanishes, \<^verbatim>\<open>handlePlayerVanish\<close> first
  retargets the mob to player 3, its second most hated player, and its second loop then
  clears the target it has just set: the attacker set of player 2 is empty and no target
  refers to player 2, but the mob ends in the attacker set of player 3 with no target,
  where the claim has its target refer to player 3.
\<close>

theorem handlePlayerVanish_leaves_attacker_without_target:
  "\<exists>w1 w2 w3.
     handleMobHate haloEnv calmWorld 5 2 10 = Inr w1 \<and>
     handleMobHate haloEnv w1 5 3 5 = Inr w2 \<and>
     target (objs w2 5) = Some 2 \<and> attackers (objs w2 2) = [5] \<and>
     attackers (objs w2 3) = [] \<and> hatelist (objs w2 5) = [(2, 10), (3, 5)] \<and>
     getHatedPlayerId (objs w2 5) (Some 2) = Some 3 \<and>
     handlePlayerVanish haloEnv w2 2 = Inr w3 \<and>
     attackers (objs w3 2) = [] \<and>
     attackers (objs w3 3) = [5] \<and>
     target (objs w3 5) = None"
  by (simp add: aggro_defs)

text \<open>
  Claim C1, at a failing input. In the same state, reached by two calls of
  \<^verbatim>\<open>handleMobHate\<close>, a lethal \<^verbatim>\<open>handleHurtEntity\<close> on player 2 (which runs
  \<^verbatim>\<open>handlePlayerVanish\<close>) leaves mob 5 in the attacker set of player 3 while the target
  of mob 5 is not player 3: the aggro links of the reached state are not symmetric.
\<close>

theorem aggro_symmetry_broken_by_player_death:
  "\<exists>w1 w2 w3.
     handleMobHate haloEnv calmWorld 5 2 10 = Inr w1 \<and>
     handleMobHate haloEnv w1 5 3 5 = Inr w2 \<and>
     target (objs w2 5) = Some 2 \<and> attackers (objs w2 2) = [5] \<and>
     attackers (objs w2 3) = [] \<and>
     handleHurtEntity haloEnv w2 2 (Some 5) 10 0 = Inr w3 \<and>
     3 \<in> entities w3 \<and> 5 \<in> entities w3 \<and>
     cls (objs w3 3) = PlayerC \<and> cls (objs w3 5) = MobC \<and>
     5 \<in> set (attackers (objs w3 3)) \<and>
     target (objs w3 5) \<noteq> Some 3"
  by (simp add: aggro_defs handleHurtEntity_def playerDeath_def removeEntity_def destroy_def)

lemma sameAggro_refl: "sameAggro w w"
  by (simp add: sameAggro_def)

lemma sameAggro_trans: "sameAggro w w1 \<Longrightarrow> sameAggro w1 w2 \<Longrightarrow> sameAggro w w2"
  by (simp add: sameAggro_def)

lemma sameAggro_symmetric: "sameAggro w w' \<Longrightarrow> aggroSymmetric w' = aggroSymmetric w"
  by (simp add: sameAggro_def aggroSymmetric_def)

lemma sameAggro_groupFrame: "groupFrame e w w' \<Longrightarrow> sameAggro w w'"
proof -
  assume f: "groupFrame e w w'"
  then have o: "\<And>i. i \<noteq> e \<Longrightarrow> objs w' i = objs w i"
    and s: "sameUpToGroup (objs w e) (objs w' e)" and en: "entities w' = entities w"
    by (simp_all add: groupFrame_def)
  have "cls (objs w' i) = cls (objs w i) \<and> target (objs w' i) = target (objs w i) \<and>
          attackers (objs w' i) = attackers (objs w i)" for i
    using o [of i] sameUpToGroup_fields [OF s] by (cases "i = e") auto
  with en show ?thesis by (simp add: sameAggro_def)
qed

lemma sameAggro_pushSeq: "sameAggro w (pushSeq w ps)"
  by (simp add: sameAggro_def)

lemma sameAggro_moveEntity:
  assumes "moveEntity E w e px py = Inr w'"
  shows "sameAggro w w'"
proof -
  let ?w0 = "updObj w e (\<lambda>x. x\<lparr>posx := px, posy := py\<rparr>)"
  from assms obtain c where h: "handleEntityGroupMembership E ?w0 e = Inr (c, w')"
    by (auto simp: moveEntity_def bindE_Inr_iff)
  have "sameAggro w ?w0" by (simp add: sameAggro_def objs_updObj)
  from sameAggro_trans [OF this sameAggro_groupFrame [OF groupFrame_hEGM [OF h]]]
  show ?thesis .
qed

lemma sameAggro_attack_callback:
  assumes "attack_callback E w a = Inr w'"
  shows "sameAggro w w'"
proof (cases "getEntityById w (target (objs w a))")
  case None
  with assms show ?thesis by (simp add: attack_callback_def sameAggro_refl)
next
  case (Some t)
  show ?thesis
  proof (cases "cls (objs w a) = MobC")
    case False
    with assms Some show ?thesis by (simp add: attack_callback_def sameAggro_refl)
  next
    case True
    with assms Some obtain pos rest where
      m: "moveEntity E (w\<lparr>positionDraws := rest\<rparr>) a (fst pos) (snd pos) = Inr w'"
      by (auto simp: attack_callback_def split: option.splits)
    have "sameAggro w (w\<lparr>positionDraws := rest\<rparr>)" by (simp add: sameAggro_def)
    from sameAggro_trans [OF this sameAggro_moveEntity [OF m]] show ?thesis .
  qed
qed

lemma sameAggro_broadcastAttacker:
  assumes "broadcastAttacker E w c = Inr w'"
  shows "sameAggro w w'"
proof -
  from assms have "attack_callback E
       (pushSeq w (toAll (adjacentRecipients E w (group (objs w c)) (Some c))
          (Attack c (target (objs w c))))) c = Inr w'"
    by (simp add: broadcastAttacker_def pushToAdjacentGroups_pushSeq)
  from sameAggro_trans [OF sameAggro_pushSeq sameAggro_attack_callback [OF this]]
  show ?thesis .
qed

text \<open>
  What holds of the symmetry: \<^verbatim>\<open>chooseMobTarget\<close>, \<^verbatim>\<open>handleMobHate\<close> and \<^verbatim>\<open>removeEntity\<close>
  preserve it whenever they return; \<^verbatim>\<open>handlePlayerVanish\<close> does not.
\<close>

lemma chooseMobTarget_preserves_symmetry:
  assumes sym: "aggroSymmetric w" and mob: "cls (objs w mob) = MobC"
    and ch: "chooseMobTarget E w mob hateRank = Inr w'"
  shows "aggroSymmetric w'"
proof (cases "getEntityById w (getHatedPlayerId (objs w mob) hateRank)")
  case None
  with ch sym show ?thesis by (simp add: chooseMobTarget_def)
next
  case (Some player)
  then have reg: "player \<in> entities w"
    by (auto simp: getEntityById_def split: option.splits if_splits)
  show ?thesis
  proof (cases "mob \<in> set (attackers (objs w player))")
    case True
    with ch sym Some show ?thesis by (simp add: chooseMobTarget_def)
  next
    case False
    let ?w1 = "clearMobAggroLink w mob"
    let ?w2 = "updObj ?w1 player (\<lambda>p. addAttacker p mob)"
    let ?w3 = "updObj ?w2 mob (\<lambda>m. setTarget m player)"
    from ch Some False have b: "broadcastAttacker E ?w3 mob = Inr w'"
      by (simp add: chooseMobTarget_def Let_def)
    have e3: "entities ?w3 = entities w"
      by (simp add: clearMobAggroLink_def split: option.splits)
    have pm: "player \<noteq> mob \<or> cls (objs w player) = MobC" using mob by auto
    have "aggroSymmetric ?w3"
      unfolding aggroSymmetric_def e3
    proof (intro ballI impI)
      fix m p
      assume m: "m \<in> entities w" and p: "p \<in> entities w"
        and c: "cls (objs ?w3 m) = MobC \<and> cls (objs ?w3 p) = PlayerC"
      have cls3: "\<And>i. cls (objs ?w3 i) = cls (objs w i)"
        by (simp add: objs_updObj clearMobAggroLink_def addAttacker_def setTarget_def
              removeAttacker_def split: option.splits)
      from c have cm: "cls (objs w m) = MobC" and cp: "cls (objs w p) = PlayerC"
        by (simp_all add: cls3)
      from cp mob have pmob: "p \<noteq> mob" by auto
      from sym m p cm cp have s: "target (objs w m) = Some p \<longleftrightarrow> m \<in> set (attackers (objs w p))"
        by (simp add: aggroSymmetric_def)
      have t3: "target (objs ?w3 m) = (if m = mob then Some player else target (objs w m))"
        by (simp add: objs_updObj clearMobAggroLink_def addAttacker_def setTarget_def
              removeAttacker_def split: option.splits)
      have a3: "set (attackers (objs ?w3 p)) =
          (if p = player then insert mob else id)
            (if target (objs w mob) = Some p then set (attackers (objs w p)) - {mob}
             else set (attackers (objs w p)))"
        using pmob p
        by (auto simp: objs_updObj clearMobAggroLink_def addAttacker_def setTarget_def
              removeAttacker_def getEntityById_def split: option.splits)
      show "target (objs ?w3 m) = Some p \<longleftrightarrow> m \<in> set (attackers (objs ?w3 p))"
      proof (cases "m = mob")
        case True
        from sym m p mob cp True
        have sm: "target (objs w mob) = Some p \<longleftrightarrow> mob \<in> set (attackers (objs w p))"
          by (simp add: aggroSymmetric_def)
        show ?thesis
          unfolding t3 a3 using True sm by auto
      next
        case False
        then show ?thesis
          unfolding t3 a3 using s by auto
      qed
    qed
    with sameAggro_symmetric [OF sameAggro_broadcastAttacker [OF b]] show ?thesis by simp
  qed
qed

lemma handleMobHate_preserves_symmetry:
  assumes sym: "aggroSymmetric w" and mob: "cls (objs w mobId) = MobC"
    and h: "handleMobHate E w mobId playerId hatePoints = Inr w'"
  shows "aggroSymmetric w'"
proof (cases "mobId \<in> entities w \<and> playerId \<in> entities w")
  case False
  with h sym show ?thesis
    by (auto simp: handleMobHate_def getEntityById_def split: if_splits)
next
  case True
  let ?w1 = "updObj w mobId (\<lambda>m. increaseHateFor m playerId hatePoints)"
  let ?w2 = "updObj ?w1 playerId (\<lambda>p. addHater p mobId)"
  have sa: "sameAggro w ?w2"
    by (simp add: sameAggro_def objs_updObj increaseHateFor_def addHater_def)
  then have s2: "aggroSymmetric ?w2" using sym sameAggro_symmetric by blast
  have c2: "cls (objs ?w2 mobId) = MobC" using sa mob by (simp add: sameAggro_def)
  show ?thesis
  proof (cases "hitPoints (objs ?w2 mobId) > 0")
    case False
    with h True have "w' = ?w2"
      by (simp add: handleMobHate_def getEntityById_def Let_def)
    with s2 show ?thesis by simp
  next
    case T: True
    with h True have "chooseMobTarget E ?w2 mobId None = Inr w'"
      by (simp add: handleMobHate_def getEntityById_def Let_def)
    from chooseMobTarget_preserves_symmetry [OF s2 c2 this] show ?thesis .
  qed
qed

lemma sameAggro_clearMobHateLinks_fold:
  "sameAggro w (foldl (\<lambda>w' obj.
              case getEntityById w' (Some (fst obj)) of
                None \<Rightarrow> w'
              | Some player \<Rightarrow> updObj w' player (\<lambda>p. removeHater p mob)) w hl)"
proof (induction hl arbitrary: w)
  case Nil show ?case by (simp add: sameAggro_refl)
next
  case (Cons obj hl)
  let ?w1 = "case getEntityById w (Some (fst obj)) of
                None \<Rightarrow> w
              | Some player \<Rightarrow> updObj w player (\<lambda>p. removeHater p mob)"
  have "sameAggro w ?w1"
    by (simp add: sameAggro_def objs_updObj removeHater_def split: option.splits)
  from sameAggro_trans [OF this Cons.IH [of ?w1]] show ?case by simp
qed

lemma sameAggro_clearMobHateLinks: "sameAggro w (clearMobHateLinks w mob)"
  unfolding clearMobHateLinks_def by (rule sameAggro_clearMobHateLinks_fold)

lemma removeEntity_preserves_symmetry:
  assumes sym: "aggroSymmetric w" and r: "removeEntity E w e = Inr w'"
  shows "aggroSymmetric w'"
proof -
  let ?w1 = "w\<lparr>entities := entities w - {e}, mobs := mobs w - {e}, items := items w - {e}\<rparr>"
  let ?wa = "clearMobAggroLink ?w1 e"
  let ?w2 = "if cls (objs ?w1 e) = MobC then clearMobHateLinks ?wa e else ?w1"
  let ?w3 = "updObj ?w2 e destroy"
  from r obtain old where g: "removeFromGroups E ?w3 e = Inr (old, w')"
    by (auto simp: removeEntity_def Let_def bindE_Inr_iff)
  have s3: "sameAggro ?w3 w'"
    by (rule sameAggro_groupFrame [OF groupFrame_removeFromGroups [OF g]])
  have e2: "entities ?w2 = entities w - {e}"
    using sameAggro_clearMobHateLinks [of ?wa e]
    by (simp add: sameAggro_def clearMobAggroLink_def split: option.splits)
  have v2: "cls (objs ?w2 i) = cls (objs w i) \<and> target (objs ?w2 i) = target (objs w i) \<and>
            (\<forall>m. m \<noteq> e \<longrightarrow> (m \<in> set (attackers (objs ?w2 i)) \<longleftrightarrow> m \<in> set (attackers (objs w i))))"
    for i
  proof -
    have a: "cls (objs ?wa i) = cls (objs w i) \<and> target (objs ?wa i) = target (objs w i) \<and>
            (\<forall>m. m \<noteq> e \<longrightarrow> (m \<in> set (attackers (objs ?wa i)) \<longleftrightarrow> m \<in> set (attackers (objs w i))))"
      by (auto simp: clearMobAggroLink_def objs_updObj removeAttacker_def split: option.splits)
    show ?thesis
    proof (cases "cls (objs ?w1 e) = MobC")
      case False
      then show ?thesis by simp
    next
      case True
      with a sameAggro_clearMobHateLinks [of ?wa e] show ?thesis
        by (simp add: sameAggro_def)
    qed
  qed
  have "aggroSymmetric ?w3"
    unfolding aggroSymmetric_def
  proof (intro ballI impI)
    fix m p
    assume m: "m \<in> entities ?w3" and p: "p \<in> entities ?w3"
      and c: "cls (objs ?w3 m) = MobC \<and> cls (objs ?w3 p) = PlayerC"
    from m p have me: "m \<noteq> e" "p \<noteq> e" "m \<in> entities w" "p \<in> entities w"
      using e2 by (simp_all del: updObj_fields add: updObj_fields(1))
    have o: "objs ?w3 m = objs ?w2 m" "objs ?w3 p = objs ?w2 p"
      using me by (simp_all add: objs_updObj)
    from c have "cls (objs w m) = MobC" "cls (objs w p) = PlayerC"
      using v2 [of m] v2 [of p] by (simp_all only: o)
    with sym me have "target (objs w m) = Some p \<longleftrightarrow> m \<in> set (attackers (objs w p))"
      by (simp add: aggroSymmetric_def)
    then show "target (objs ?w3 m) = Some p \<longleftrightarrow> m \<in> set (attackers (objs ?w3 p))"
      using v2 [of m] v2 [of p] me by (simp only: o) blast
  qed
  with sameAggro_symmetric [OF s3] show ?thesis by simp
qed

lemma handlePlayerVanish_breaks_symmetry:
  "aggroSymmetric calmWorld \<and>
   (\<exists>w1 w2 w3.
      handleMobHate haloEnv calmWorld 5 2 10 = Inr w1 \<and>
      handleMobHate haloEnv w1 5 3 5 = Inr w2 \<and> aggroSymmetric w2 \<and>
      handlePlayerVanish haloEnv w2 2 = Inr w3 \<and> \<not> aggroSymmetric w3)"
  by (simp add: aggro_defs aggroSymmetric_def)

end
